theory Spec2Isabelle
  imports Main "HOL-Library.Multiset"
begin

text \<open>
  A configuration provider over a remote secret store: the secrets of a list are fetched
  concurrently, the fetches that fail are dropped, the values fetched are merged onto a
  seed map, and the map is wrapped as a \<^verbatim>\<open>ConfigProvider\<close>, alone or with a fallback
  on the environment or on a JSON document. The definitions follow
  \<^verbatim>\<open>gcp-secret-manager/layers.ts\<close>, the service \<^verbatim>\<open>GcpSecretManager\<close> and the
  reference \<^verbatim>\<open>SecretMap\<close>.
\<close>

section \<open>Secret specs and the store client\<close>

text \<open>
  \<^verbatim>\<open>type SecretInput = string | { nameInSecretManager: string; nameInConfig: string }\<close>
  is a tagged union; \<^verbatim>\<open>ConfigProviderInput\<close> is a record. The element type
  \<^verbatim>\<open>NonEmptyReadonlyArray\<close> exists for the type checker only: at run time the
  field holds an ordinary array, so the model is a list.
\<close>

datatype SecretInput = Str string | Obj string string

record ConfigProviderInput =
  projectId :: string
  secrets :: "SecretInput list"

text \<open>
  The client of the remote store answers \<^verbatim>\<open>accessSecretVersion({name})\<close> with a
  promise: it is rejected, or it resolves to a response whose
  \<^verbatim>\<open>payload?.data?.toString()\<close> is a string or undefined.
\<close>

datatype AccessResponse = Rejected | Resolved "string option"

type_synonym SecretManagerServiceClient = "string \<Rightarrow> AccessResponse"

datatype FetchError = UnknownException | NoSuchElementException

definition secretVersionName :: "string \<Rightarrow> string \<Rightarrow> string" where
  "secretVersionName project name =
     ''projects/'' @ project @ ''/secrets/'' @ name @ ''/versions/latest''"

text \<open>
  \<^verbatim>\<open>getSecret\<close> of the service: \<^verbatim>\<open>Effect.tryPromise\<close> turns a rejection into
  the failure \<^verbatim>\<open>UnknownException\<close>, and \<^verbatim>\<open>Option.fromNullable\<close>, run as an effect,
  fails with \<^verbatim>\<open>NoSuchElementException\<close> on a missing payload.
\<close>

definition getSecret ::
  "SecretManagerServiceClient \<Rightarrow> string \<Rightarrow> string \<Rightarrow> FetchError + string" where
  "getSecret client project name =
     (case client (secretVersionName project name) of
        Rejected \<Rightarrow> Inl UnknownException
      | Resolved None \<Rightarrow> Inl NoSuchElementException
      | Resolved (Some data) \<Rightarrow> Inr data)"

section \<open>The primitives of the effect library used by the code\<close>

text \<open>
  The effect library is a dependency of the repository, not part of it. Its primitives
  are modelled after their published behaviour. An effect that has run is its outcome,
  \<open>Inl\<close> a failure of its error channel and \<open>Inr\<close> a success; defects (an
  exception thrown where the types promise none) and interruption are not modelled.
\<close>

definition Effect_option :: "'e + 'a \<Rightarrow> 'e + 'a option" where
  "Effect_option self = (case self of Inl e \<Rightarrow> Inr None | Inr a \<Rightarrow> Inr (Some a))"

definition Effect_map :: "('a \<Rightarrow> 'b) \<Rightarrow> 'e + 'a \<Rightarrow> 'e + 'b" where
  "Effect_map f self = (case self of Inl e \<Rightarrow> Inl e | Inr a \<Rightarrow> Inr (f a))"

text \<open>
  \<^verbatim>\<open>Effect.forEach(self, f, { concurrency: "unbounded" })\<close> starts one fiber per
  element and waits for all of them. The fibers finish in an order the code does not
  control: \<open>completion_order\<close> derives it from a list of choices, each choice picking
  one of the fibers still running, so that every list of choices is a completion order
  and every completion order comes from some list. A fiber that succeeds writes its
  result at the index of its element (\<^verbatim>\<open>array[i] = b\<close>); the first fiber that fails
  makes the whole effect fail. The result is the array, read once every fiber is done:
  by then every cell holds a result, since each index completes once.
\<close>

function completion_order :: "nat list \<Rightarrow> nat list \<Rightarrow> nat list" where
  "completion_order choices [] = []"
| "completion_order choices (p # ps) =
     (let running = p # ps;
          c = (case choices of [] \<Rightarrow> 0 | c # _ \<Rightarrow> c mod length running);
          i = running ! c
      in i # completion_order (tl choices) (remove1 i running))"
  by pat_completeness auto
termination
proof (relation "measure (\<lambda>(choices, running). length running)")
  show "wf (measure (\<lambda>(choices, running). length running))"
    by simp
next
  fix choices :: "nat list" and p :: nat and ps running c i
  assume r: "running = p # ps"
    and c: "c = (case choices of [] \<Rightarrow> 0 | c # x \<Rightarrow> c mod length running)"
    and i: "i = running ! c"
  have "c < length running"
    using r c by (cases choices) simp_all
  then have "i \<in> set running"
    using i by simp
  then have "length (remove1 i running) < length running"
    by (simp add: length_remove1) (cases running; simp)
  then show "((tl choices, remove1 i running), (choices, p # ps))
      \<in> measure (\<lambda>(choices, running). length running)"
    using r by simp
qed

fun settle ::
  "('a \<Rightarrow> 'e + 'b) \<Rightarrow> 'a list \<Rightarrow> nat list \<Rightarrow> 'b option list \<Rightarrow> 'e + 'b option list" where
  "settle f self [] array = Inr array"
| "settle f self (i # order) array =
     (case f (self ! i) of
        Inl e \<Rightarrow> Inl e
      | Inr b \<Rightarrow> settle f self order (array[i := Some b]))"

definition Effect_forEach ::
  "'a list \<Rightarrow> ('a \<Rightarrow> 'e + 'b) \<Rightarrow> nat list \<Rightarrow> 'e + 'b list" where
  "Effect_forEach self f choices =
     (case settle f self (completion_order choices [0..<length self])
             (replicate (length self) None) of
        Inl e \<Rightarrow> Inl e
      | Inr array \<Rightarrow> Inr (map the array))"

text \<open>
  \<^verbatim>\<open>HashMap\<close> is an immutable map; the model is an association list with one entry
  per key. \<^verbatim>\<open>fromIterable\<close> sets the entries one after the other, \<^verbatim>\<open>compact\<close>
  keeps the values that are \<open>Some\<close>, without the wrapper, and \<^verbatim>\<open>reduce\<close> folds over
  the entries, calling \<^verbatim>\<open>f(accumulator, value, key)\<close>.
\<close>

type_synonym ('k, 'v) HashMap = "('k \<times> 'v) list"

fun HashMap_set :: "'k \<Rightarrow> 'v \<Rightarrow> ('k, 'v) HashMap \<Rightarrow> ('k, 'v) HashMap" where
  "HashMap_set k v [] = [(k, v)]"
| "HashMap_set k v (p # ps) = (if fst p = k then (k, v) # ps else p # HashMap_set k v ps)"

definition HashMap_get :: "('k, 'v) HashMap \<Rightarrow> 'k \<Rightarrow> 'v option" where
  "HashMap_get self k = map_of self k"

definition HashMap_fromIterable :: "('k \<times> 'v) list \<Rightarrow> ('k, 'v) HashMap" where
  "HashMap_fromIterable entries = fold (\<lambda>(k, v) m. HashMap_set k v m) entries []"

fun HashMap_compact :: "('k, 'v option) HashMap \<Rightarrow> ('k, 'v) HashMap" where
  "HashMap_compact [] = []"
| "HashMap_compact ((k, None) # ps) = HashMap_compact ps"
| "HashMap_compact ((k, Some v) # ps) = (k, v) # HashMap_compact ps"

definition HashMap_reduce :: "'z \<Rightarrow> ('z \<Rightarrow> 'v \<Rightarrow> 'k \<Rightarrow> 'z) \<Rightarrow> ('k, 'v) HashMap \<Rightarrow> 'z" where
  "HashMap_reduce zero f self = fold (\<lambda>(k, v) z. f z v k) self zero"

text \<open>
  A JavaScript \<^verbatim>\<open>Map\<close> is a mutable object: the store maps each reference to the
  contents of the object it points to, and \<^verbatim>\<open>map.set(key, value)\<close> updates the
  store at that reference.
\<close>

type_synonym ref = nat
type_synonym store = "ref \<Rightarrow> (string \<rightharpoonup> string)"

definition Map_set :: "ref \<Rightarrow> string \<Rightarrow> string \<Rightarrow> store \<Rightarrow> store" where
  "Map_set m key val h = h(m := (h m)(key \<mapsto> val))"

section \<open>The aggregation\<close>

text \<open>
  The body of the inner generator, lines 22 to 29 of \<^verbatim>\<open>layers.ts\<close>. The object form
  \<open>Obj m c\<close> stands for \<^verbatim>\<open>{ nameInSecretManager: m, nameInConfig: c }\<close>; the two
  constants of lines 23 and 24 are the two functions below.
\<close>

definition nameInConfig :: "SecretInput \<Rightarrow> string" where
  "nameInConfig secretInput = (case secretInput of Str s \<Rightarrow> s | Obj m c \<Rightarrow> c)"

definition nameInSecretManager :: "SecretInput \<Rightarrow> string" where
  "nameInSecretManager secretInput = (case secretInput of Str s \<Rightarrow> s | Obj m c \<Rightarrow> m)"

definition fetchSecret ::
  "(string \<Rightarrow> FetchError + string) \<Rightarrow> SecretInput \<Rightarrow> FetchError + (string \<times> string option)" where
  "fetchSecret gcpGetSecret secretInput =
     (case Effect_option (gcpGetSecret (nameInSecretManager secretInput)) of
        Inl e \<Rightarrow> Inl e
      | Inr secretResult \<Rightarrow> Inr (nameInConfig secretInput, secretResult))"

text \<open>
  Lines 19 to 33: the fetches, the hash map of their outcomes, and the outcomes that
  hold a value.
\<close>

definition fetchedSecrets ::
  "(string \<Rightarrow> FetchError + string) \<Rightarrow> nat list \<Rightarrow> ConfigProviderInput
     \<Rightarrow> FetchError + (string, string) HashMap" where
  "fetchedSecrets gcpGetSecret choices input =
     Effect_map HashMap_compact
       (Effect_map HashMap_fromIterable
          (Effect_forEach (secrets input) (fetchSecret gcpGetSecret) choices))"

text \<open>
  Lines 18 to 40: \<^verbatim>\<open>yield* SecretMap\<close> gives a reference to a \<^verbatim>\<open>Map\<close> object (the
  one the caller provided, or the default of the reference), the reducer sets every
  fetched entry on that object and returns the reference it was given.
\<close>

definition secretMapForConfigProvider ::
  "(string \<Rightarrow> FetchError + string) \<Rightarrow> ref \<Rightarrow> nat list \<Rightarrow> ConfigProviderInput \<Rightarrow> store
     \<Rightarrow> FetchError + (ref \<times> store)" where
  "secretMapForConfigProvider gcpGetSecret SecretMap choices input h =
     Effect_map
       (HashMap_reduce (SecretMap, h) (\<lambda>(m, h) val key. (m, Map_set m key val h)))
       (fetchedSecrets gcpGetSecret choices input)"

section \<open>Configuration providers\<close>

text \<open>
  A \<^verbatim>\<open>ConfigProvider\<close> is modelled by what it answers when a string is loaded under
  a key (\<^verbatim>\<open>Config.string(key)\<close>, whose path is the one segment \<open>key\<close>), given the
  process environment at the time of the lookup. \<^verbatim>\<open>fromEnv\<close> answers from the
  environment, with \<^verbatim>\<open>MissingData\<close> for a key it does not hold;
  \<^verbatim>\<open>orElse(that)(self)\<close> asks \<^verbatim>\<open>self\<close>, and on any error asks \<^verbatim>\<open>that()\<close>; when both
  fail the error is the \<^verbatim>\<open>Or\<close> of the two.
\<close>

datatype ConfigError =
  And ConfigError ConfigError
  | Or ConfigError ConfigError
  | InvalidData string
  | MissingData string
  | SourceUnavailable string
  | Unsupported string

fun isMissingDataOnly :: "ConfigError \<Rightarrow> bool" where
  "isMissingDataOnly (And l r) = (isMissingDataOnly l \<and> isMissingDataOnly r)"
| "isMissingDataOnly (Or l r) = (isMissingDataOnly l \<and> isMissingDataOnly r)"
| "isMissingDataOnly (InvalidData m) = False"
| "isMissingDataOnly (MissingData m) = True"
| "isMissingDataOnly (SourceUnavailable m) = False"
| "isMissingDataOnly (Unsupported m) = False"

type_synonym Env = "string \<rightharpoonup> string"
type_synonym ConfigProvider = "Env \<Rightarrow> string \<Rightarrow> ConfigError + string"

text \<open>
  \<^verbatim>\<open>fromMap\<close> does not answer from the map it is given but from a copy that
  \<^verbatim>\<open>splitIndexInKeys\<close> makes when the provider is built. The copy takes each key apart
  at the dots, and a part that ends in an index, \<^verbatim>\<open>/(^.+)(\[(\d+)\])$/\<close>, becomes two
  parts, the text before the index and the index printed anew as a number: \<open>K[0]\<close>
  is stored as \<open>K.[0]\<close> and \<open>K[007]\<close> as \<open>K.[7]\<close>. The dot of the regular expression
  matches no line terminator. Strings are byte strings in UTF-8.
\<close>

fun splitOn :: "char \<Rightarrow> string \<Rightarrow> string list" where
  "splitOn d [] = [[]]"
| "splitOn d (c # cs) =
     (if c = d then [] # splitOn d cs
      else (case splitOn d cs of [] \<Rightarrow> [[c]] | s # ss \<Rightarrow> (c # s) # ss))"

fun joinWith :: "char \<Rightarrow> string list \<Rightarrow> string" where
  "joinWith d [] = []"
| "joinWith d [s] = s"
| "joinWith d (s # t # ss) = s @ d # joinWith d (t # ss)"

definition isDigit :: "char \<Rightarrow> bool" where
  "isDigit c = (c \<in> set ''0123456789'')"

fun hasLineTerminator :: "string \<Rightarrow> bool" where
  "hasLineTerminator [] = False"
| "hasLineTerminator (c # cs) =
     (c = CHR 0x0A \<or> c = CHR 0x0D
      \<or> (c = CHR 0xE2 \<and> (take 2 cs = [CHR 0x80, CHR 0xA8] \<or> take 2 cs = [CHR 0x80, CHR 0xA9]))
      \<or> hasLineTerminator cs)"

text \<open>
  \<^verbatim>\<open>splitIndexFrom\<close>: the match of the regular expression on one part of a key, as the
  text before the index and the digits of the index.
\<close>

definition splitIndexFrom :: "string \<Rightarrow> (string \<times> string) option" where
  "splitIndexFrom key =
     (case rev key of
        [] \<Rightarrow> None
      | c # rest \<Rightarrow>
          if c = CHR '']'' then
            (case dropWhile isDigit rest of
               [] \<Rightarrow> None
             | b # pre \<Rightarrow>
                 if b = CHR ''['' \<and> takeWhile isDigit rest \<noteq> [] \<and> pre \<noteq> []
                    \<and> \<not> hasLineTerminator (rev pre)
                 then Some (rev pre, rev (takeWhile isDigit rest))
                 else None)
          else None)"

text \<open>
  The index is parsed by \<^verbatim>\<open>Number.parseInt\<close> and printed back in the new key. Below
  \<open>2 ^ 53\<close> the number is exact and printed in decimal, without leading zeros; a larger
  one is rounded to a floating point number, and the text printed for it is the
  parameter \<open>numberText\<close>, a function of the digits.
\<close>

definition parseInt :: "string \<Rightarrow> nat" where
  "parseInt digits = foldl (\<lambda>n c. 10 * n + (of_char c - 48)) 0 digits"

function decimal :: "nat \<Rightarrow> string" where
  "decimal n =
     (if n < 10 then [''0123456789'' ! n]
      else decimal (n div 10) @ [''0123456789'' ! (n mod 10)])"
  by pat_completeness auto
termination
  by (relation "measure (\<lambda>n. n)") auto

declare decimal.simps [simp del]

definition indexText :: "(string \<Rightarrow> string) \<Rightarrow> string \<Rightarrow> string" where
  "indexText numberText digits =
     (if parseInt digits < 2 ^ 53 then decimal (parseInt digits) else numberText digits)"

definition splitIndexInKey :: "(string \<Rightarrow> string) \<Rightarrow> string \<Rightarrow> string" where
  "splitIndexInKey numberText pathString =
     joinWith CHR ''.''
       (concat (map (\<lambda>key. case splitIndexFrom key of
                                None \<Rightarrow> [key]
                              | Some (key', digits) \<Rightarrow>
                                  [key', ''['' @ indexText numberText digits @ '']''])
                  (splitOn CHR ''.'' pathString)))"

text \<open>
  The copy is filled in the order in which the \<^verbatim>\<open>Map\<close> iterates its entries, a later
  entry replacing an earlier one that got the same new key. The store keeps the
  contents of an object and not the order of its entries, so the keys of the object in
  the order it iterates them are the parameter \<open>iteration\<close>.
\<close>

definition Map_entries :: "string list \<Rightarrow> (string \<rightharpoonup> string) \<Rightarrow> (string \<times> string) list" where
  "Map_entries iteration m =
     concat (map (\<lambda>key. case m key of None \<Rightarrow> [] | Some val \<Rightarrow> [(key, val)]) iteration)"

definition splitIndexInKeys ::
  "(string \<Rightarrow> string) \<Rightarrow> (string \<times> string) list \<Rightarrow> (string \<rightharpoonup> string)" where
  "splitIndexInKeys numberText entries =
     fold (\<lambda>(pathString, val) newMap. newMap(splitIndexInKey numberText pathString \<mapsto> val))
       entries Map.empty"

definition ConfigProvider_fromMap ::
  "(string \<Rightarrow> string) \<Rightarrow> string list \<Rightarrow> (string \<rightharpoonup> string) \<Rightarrow> ConfigProvider" where
  "ConfigProvider_fromMap numberText iteration m =
     (let mapWithIndexSplit = splitIndexInKeys numberText (Map_entries iteration m)
      in (\<lambda>env key. case mapWithIndexSplit key of
                       None \<Rightarrow> Inl (MissingData key)
                     | Some v \<Rightarrow> Inr v))"

definition ConfigProvider_fromEnv :: "unit \<Rightarrow> ConfigProvider" where
  "ConfigProvider_fromEnv u env key =
     (case env key of None \<Rightarrow> Inl (MissingData key) | Some v \<Rightarrow> Inr v)"

definition ConfigProvider_orElse :: "(unit \<Rightarrow> ConfigProvider) \<Rightarrow> ConfigProvider \<Rightarrow> ConfigProvider" where
  "ConfigProvider_orElse that self env key =
     (case self env key of
        Inr v \<Rightarrow> Inr v
      | Inl error1 \<Rightarrow>
          (case that () env key of
             Inr v \<Rightarrow> Inr v
           | Inl error2 \<Rightarrow> Inl (Or error1 error2)))"

text \<open>
  Line 42: the provider is built from the object that the merge returned, as that
  object is when the provider is built.
\<close>

definition fromSecretManager ::
  "(string \<Rightarrow> string) \<Rightarrow> string list \<Rightarrow> (string \<Rightarrow> FetchError + string) \<Rightarrow> ref \<Rightarrow> nat list
     \<Rightarrow> ConfigProviderInput \<Rightarrow> store \<Rightarrow> FetchError + (ConfigProvider \<times> store)" where
  "fromSecretManager numberText iteration gcpGetSecret SecretMap choices input h =
     Effect_map
       (\<lambda>(secretMap, h'). (ConfigProvider_fromMap numberText iteration (h' secretMap), h'))
       (secretMapForConfigProvider gcpGetSecret SecretMap choices input h)"

section \<open>The scoped service and the layers\<close>

text \<open>
  The world of a run: the \<^verbatim>\<open>Map\<close> objects, the constructions and the closes of the
  store client in the order they happen, and the finalizers of the scope that is open. \<^verbatim>\<open>Effect.acquireRelease\<close> runs the
  acquisition and registers the release; closing the scope runs the finalizers, the
  last registered first.
\<close>

datatype Event = ClientConstructed | ClientClosed

datatype Finalizer = CloseClient

record World =
  objects :: store
  events :: "Event list"
  finalizers :: "Finalizer list"

definition Effect_acquireRelease ::
  "(World \<Rightarrow> 'a \<times> World) \<Rightarrow> ('a \<Rightarrow> Finalizer) \<Rightarrow> World \<Rightarrow> 'a \<times> World" where
  "Effect_acquireRelease acquire release w =
     (let (a, w1) = acquire w in (a, w1\<lparr>finalizers := release a # finalizers w1\<rparr>))"

fun runFinalizer :: "Finalizer \<Rightarrow> World \<Rightarrow> World" where
  "runFinalizer CloseClient w = w\<lparr>events := events w @ [ClientClosed]\<rparr>"

definition Scope_close :: "World \<Rightarrow> World" where
  "Scope_close w = fold runFinalizer (finalizers w) (w\<lparr>finalizers := []\<rparr>)"

text \<open>
  The \<^verbatim>\<open>scoped\<close> constructor of the service \<^verbatim>\<open>GcpSecretManager\<close>: it acquires the
  client, registers \<^verbatim>\<open>client.close()\<close> and returns \<^verbatim>\<open>getSecret\<close>. The argument
  \<open>newClient\<close> is the client that \<^verbatim>\<open>new SecretManagerServiceClient()\<close> gives.
\<close>

definition GcpSecretManager_scoped ::
  "SecretManagerServiceClient \<Rightarrow> string \<Rightarrow> World \<Rightarrow> (string \<Rightarrow> FetchError + string) \<times> World" where
  "GcpSecretManager_scoped newClient project w =
     (let (client, w1) =
            Effect_acquireRelease
              (\<lambda>w. (newClient, w\<lparr>events := events w @ [ClientConstructed]\<rparr>))
              (\<lambda>client. CloseClient) w
      in (getSecret client project, w1))"

text \<open>
  The tail shared by the three layers: \<^verbatim>\<open>Layer.unwrapScoped\<close> runs the effect in the
  scope of the layer, \<^verbatim>\<open>Layer.provide(GcpSecretManager.Default)\<close> builds the service
  in that scope first, and the configuration of the service holds the project of the
  input.
\<close>

definition unwrapScoped_provided ::
  "SecretManagerServiceClient \<Rightarrow> string
     \<Rightarrow> ((string \<Rightarrow> FetchError + string) \<Rightarrow> store \<Rightarrow> FetchError + (ConfigProvider \<times> store))
     \<Rightarrow> World \<Rightarrow> (FetchError + ConfigProvider) \<times> World" where
  "unwrapScoped_provided newClient project effect w =
     (let (gcpSecretManager, w1) = GcpSecretManager_scoped newClient project w
      in case effect gcpSecretManager (objects w1) of
           Inl e \<Rightarrow> (Inl e, w1)
         | Inr (provider, h) \<Rightarrow> (Inr provider, w1\<lparr>objects := h\<rparr>))"

definition layerGcp ::
  "(string \<Rightarrow> string) \<Rightarrow> string list \<Rightarrow> SecretManagerServiceClient \<Rightarrow> ref \<Rightarrow> nat list
     \<Rightarrow> ConfigProviderInput \<Rightarrow> World \<Rightarrow> (FetchError + ConfigProvider) \<times> World" where
  "layerGcp numberText iteration newClient SecretMap choices input =
     unwrapScoped_provided newClient (projectId input)
       (\<lambda>gcpSecretManager.
          fromSecretManager numberText iteration gcpSecretManager SecretMap choices input)"

definition layerGcpWithEnvFallback ::
  "(string \<Rightarrow> string) \<Rightarrow> string list \<Rightarrow> SecretManagerServiceClient \<Rightarrow> ref \<Rightarrow> nat list
     \<Rightarrow> ConfigProviderInput \<Rightarrow> World \<Rightarrow> (FetchError + ConfigProvider) \<times> World" where
  "layerGcpWithEnvFallback numberText iteration newClient SecretMap choices input =
     unwrapScoped_provided newClient (projectId input)
       (\<lambda>gcpSecretManager h.
          Effect_map (\<lambda>(provider, h'). (ConfigProvider_orElse (\<lambda>u. ConfigProvider_fromEnv ()) provider, h'))
            (fromSecretManager numberText iteration gcpSecretManager SecretMap choices input h))"

text \<open>
  The JSON document has the type \<^verbatim>\<open>unknown\<close>; the provider that
  \<^verbatim>\<open>ConfigProvider.fromJson\<close> builds from it is a parameter.
\<close>

definition layerGcpWithJsonFallback ::
  "(string \<Rightarrow> string) \<Rightarrow> string list \<Rightarrow> ('j \<Rightarrow> ConfigProvider) \<Rightarrow> SecretManagerServiceClient
     \<Rightarrow> ref \<Rightarrow> nat list \<Rightarrow> 'j \<Rightarrow> ConfigProviderInput
     \<Rightarrow> World \<Rightarrow> (FetchError + ConfigProvider) \<times> World" where
  "layerGcpWithJsonFallback numberText iteration ConfigProvider_fromJson newClient SecretMap
      choices json input =
     unwrapScoped_provided newClient (projectId input)
       (\<lambda>gcpSecretManager h.
          Effect_map (\<lambda>(provider, h'). (ConfigProvider_orElse (\<lambda>u. ConfigProvider_fromJson json) provider, h'))
            (fromSecretManager numberText iteration gcpSecretManager SecretMap choices input h))"

text \<open>
  \<^verbatim>\<open>Effect.provide(program, layer)\<close>: the layer is built in a fresh scope, the program
  runs with the provider the layer installed, and the scope is closed whatever the
  outcome of the build and of the program.
\<close>

definition Effect_provide ::
  "(World \<Rightarrow> (FetchError + ConfigProvider) \<times> World) \<Rightarrow> (ConfigProvider \<Rightarrow> 'r)
     \<Rightarrow> World \<Rightarrow> (FetchError + 'r) \<times> World" where
  "Effect_provide layer program w =
     (let (built, w1) = layer (w\<lparr>finalizers := []\<rparr>);
          exit = (case built of Inl e \<Rightarrow> Inl e | Inr provider \<Rightarrow> Inr (program provider));
          w2 = Scope_close w1
      in (exit, w2\<lparr>finalizers := finalizers w\<rparr>))"

section \<open>A store to run the examples on\<close>

text \<open>
  The store of project \<open>p\<close> holds the secrets \<open>PRESENT\<close>, \<open>api-key\<close>, \<open>a\<close> and \<open>b\<close>;
  the secret \<open>EMPTY\<close> has no payload; every other request is rejected.
\<close>

definition exampleClient :: SecretManagerServiceClient where
  "exampleClient name =
     (if name = ''projects/p/secrets/PRESENT/versions/latest'' then Resolved (Some ''ok'')
      else if name = ''projects/p/secrets/api-key/versions/latest'' then Resolved (Some ''xyz'')
      else if name = ''projects/p/secrets/a/versions/latest'' then Resolved (Some ''1'')
      else if name = ''projects/p/secrets/b/versions/latest'' then Resolved (Some ''2'')
      else if name = ''projects/p/secrets/EMPTY/versions/latest'' then Resolved None
      else Rejected)"

section \<open>The fetches, whatever the order of completion\<close>

text \<open>Every fiber completes once, so the completion order is a permutation of the indices.\<close>

lemma mset_completion_order: "mset (completion_order choices running) = mset running"
proof (induction choices running rule: completion_order.induct)
  case (1 choices)
  then show ?case by simp
next
  case (2 choices p ps)
  define c where "c = (case choices of [] \<Rightarrow> 0 | c # x \<Rightarrow> c mod length (p # ps))"
  define i where "i = (p # ps) ! c"
  have "c < length (p # ps)"
    unfolding c_def by (cases choices) simp_all
  then have mem: "i \<in> set (p # ps)"
    unfolding i_def by (metis nth_mem)
  have "mset (completion_order (tl choices) (remove1 i (p # ps))) = mset (remove1 i (p # ps))"
    using "2.IH" [OF refl c_def i_def] .
  then have "mset (completion_order choices (p # ps)) = add_mset i (mset (remove1 i (p # ps)))"
    by (simp add: Let_def c_def i_def del: remove1.simps)
  also have "\<dots> = mset (p # ps)"
    using mem by (metis insert_DiffM mset_remove1 set_mset_mset)
  finally show ?case .
qed

lemma set_completion_order: "set (completion_order choices running) = set running"
  using mset_completion_order by (metis set_mset_mset)

text \<open>Conversely, every permutation of the indices is the completion order of some choices.\<close>

lemma completion_order_complete:
  "mset order = mset running \<Longrightarrow> \<exists>choices. completion_order choices running = order"
proof (induction order arbitrary: running)
  case Nil
  then show ?case by simp
next
  case (Cons i rest)
  then have mem: "i \<in> set running"
    by (metis list.set_intros(1) set_mset_mset)
  then obtain c where c: "c < length running" and i: "running ! c = i"
    by (auto simp: in_set_conv_nth)
  have "mset rest = mset (remove1 i running)"
    using Cons.prems by (metis add_mset_remove_trivial mset.simps(2) mset_remove1)
  then obtain choices where rest: "completion_order choices (remove1 i running) = rest"
    using Cons.IH by blast
  obtain p ps where running: "running = p # ps"
    using mem by (cases running) auto
  have "completion_order (c # choices) (p # ps) = i # rest"
    using c i rest unfolding running
    by (simp add: Let_def del: remove1.simps)
  then show ?case
    unfolding running by blast
qed

lemma settle_all_succeed:
  "\<forall>i \<in> set order. f (self ! i) = Inr (g (self ! i)) \<Longrightarrow>
   settle f self order array = Inr (fold (\<lambda>i a. a[i := Some (g (self ! i))]) order array)"
  by (induction order arbitrary: array) simp_all

lemma length_fold_update: "length (fold (\<lambda>i a. a[i := h i]) order array) = length array"
  by (induction order arbitrary: array) simp_all

lemma nth_fold_update:
  "j < length array \<Longrightarrow>
   fold (\<lambda>i a. a[i := h i]) order array ! j = (if j \<in> set order then h j else array ! j)"
  by (induction order arbitrary: array) (auto simp: nth_list_update)

lemma Effect_forEach_all_succeed:
  assumes "\<forall>a \<in> set self. f a = Inr (g a)"
  shows "Effect_forEach self f choices = Inr (map g self)"
proof -
  let ?order = "completion_order choices [0..<length self]"
  have order: "set ?order = {..<length self}"
    by (simp add: set_completion_order atLeast0LessThan)
  then have "\<forall>i \<in> set ?order. f (self ! i) = Inr (g (self ! i))"
    using assms by simp
  then have s: "settle f self ?order (replicate (length self) None)
      = Inr (fold (\<lambda>i a. a[i := Some (g (self ! i))]) ?order (replicate (length self) None))"
    by (rule settle_all_succeed)
  have "map the (fold (\<lambda>i a. a[i := Some (g (self ! i))]) ?order (replicate (length self) None))
      = map g self"
    by (rule nth_equalityI) (simp_all add: length_fold_update nth_fold_update order)
  then show ?thesis
    by (simp add: Effect_forEach_def s)
qed

lemma fetchSecret_eq:
  "fetchSecret gcp s =
     Inr (nameInConfig s, case gcp (nameInSecretManager s) of Inl e \<Rightarrow> None | Inr v \<Rightarrow> Some v)"
  by (simp add: fetchSecret_def Effect_option_def split: sum.split)

section \<open>The hash map of the outcomes\<close>

lemma map_of_HashMap_set: "map_of (HashMap_set k v m) = (map_of m)(k \<mapsto> v)"
  by (induction m) (auto simp: fun_eq_iff)

lemma keys_HashMap_set: "set (map fst (HashMap_set k v m)) = insert k (set (map fst m))"
  by (induction m) auto

lemma distinct_HashMap_set: "distinct (map fst m) \<Longrightarrow> distinct (map fst (HashMap_set k v m))"
proof (induction m)
  case Nil
  then show ?case by simp
next
  case (Cons p m)
  then show ?case
    using keys_HashMap_set [of k v m] by (cases p) (auto simp del: set_map)
qed

lemma fold_HashMap_set:
  "map_of (fold (\<lambda>(k, v) m. HashMap_set k v m) entries m) = map_of m ++ map_of (rev entries)"
  by (induction entries arbitrary: m) (auto simp: map_of_HashMap_set map_add_def fun_eq_iff split: option.split)

lemma distinct_fold_HashMap_set:
  "distinct (map fst m) \<Longrightarrow> distinct (map fst (fold (\<lambda>(k, v) m. HashMap_set k v m) entries m))"
  by (induction entries arbitrary: m) (auto simp: distinct_HashMap_set)

lemma map_of_HashMap_fromIterable: "map_of (HashMap_fromIterable entries) = map_of (rev entries)"
  by (simp add: HashMap_fromIterable_def fold_HashMap_set)

lemma distinct_HashMap_fromIterable: "distinct (map fst (HashMap_fromIterable entries))"
  by (simp add: HashMap_fromIterable_def distinct_fold_HashMap_set)

lemma keys_HashMap_compact: "set (map fst (HashMap_compact m)) \<subseteq> set (map fst m)"
  by (induction m rule: HashMap_compact.induct) auto

lemma distinct_HashMap_compact: "distinct (map fst m) \<Longrightarrow> distinct (map fst (HashMap_compact m))"
proof (induction m rule: HashMap_compact.induct)
  case 1
  then show ?case by simp
next
  case (2 k ps)
  then show ?case by simp
next
  case (3 k v ps)
  then have "k \<notin> set (map fst ps)" by simp
  then have "k \<notin> set (map fst (HashMap_compact ps))"
    using keys_HashMap_compact [of ps] by blast
  with 3 show ?case by simp
qed

lemma map_of_HashMap_compact_None:
  "k \<notin> fst ` set m \<Longrightarrow> map_of (HashMap_compact m) k = None"
  by (induction m rule: HashMap_compact.induct) auto

lemma map_of_HashMap_compact:
  "distinct (map fst m) \<Longrightarrow>
   map_of (HashMap_compact m) k = (case map_of m k of Some (Some v) \<Rightarrow> Some v | _ \<Rightarrow> None)"
proof (induction m rule: HashMap_compact.induct)
  case 1
  then show ?case by simp
next
  case (2 k' ps)
  then have notin: "k' \<notin> fst ` set ps" by simp
  then have "map_of (HashMap_compact ps) k' = None"
    by (rule map_of_HashMap_compact_None)
  moreover have "map_of ps k' = None"
    using notin by (simp add: map_of_eq_None_iff)
  ultimately show ?case using 2 by simp
next
  case (3 k' v ps)
  then show ?case by simp
qed

lemma HashMap_reduce_Map_set:
  "HashMap_reduce (r, h) (\<lambda>(m, h) val key. (m, Map_set m key val h)) es
     = (r, h(r := h r ++ map_of (rev es)))"
  unfolding HashMap_reduce_def
proof (induction es arbitrary: h)
  case Nil
  then show ?case by simp
next
  case (Cons e es)
  then show ?case
    by (cases e) (auto simp: Map_set_def fun_eq_iff map_add_def split: option.split)
qed

lemma map_of_rev_distinct: "distinct (map fst es) \<Longrightarrow> map_of (rev es) = map_of es"
  by (rule map_of_inject_set [THEN iffD2]) (simp_all add: rev_map [symmetric])

text \<open>The outcomes of the fetches: one per spec, in the order of the list.\<close>

lemma forEach_fetchSecret:
  "Effect_forEach ss (fetchSecret gcp) choices =
     Inr (map (\<lambda>s. (nameInConfig s,
                     case gcp (nameInSecretManager s) of Inl e \<Rightarrow> None | Inr v \<Rightarrow> Some v)) ss)"
  by (rule Effect_forEach_all_succeed) (simp add: fetchSecret_eq)

lemma fetchedSecrets_eq:
  "fetchedSecrets gcp choices input =
     Inr (HashMap_compact (HashMap_fromIterable
       (map (\<lambda>s. (nameInConfig s,
                   case gcp (nameInSecretManager s) of Inl e \<Rightarrow> None | Inr v \<Rightarrow> Some v))
          (secrets input))))"
  by (simp add: fetchedSecrets_def forEach_fetchSecret Effect_map_def)

lemma fetchedSecrets_Inr:
  "\<exists>hm. fetchedSecrets gcp choices input = Inr hm
     \<and> distinct (map fst hm)
     \<and> (\<forall>k. HashMap_get hm k =
          (case map_of (rev (map (\<lambda>s. (nameInConfig s,
                   case gcp (nameInSecretManager s) of Inl e \<Rightarrow> None | Inr v \<Rightarrow> Some v))
              (secrets input))) k of Some (Some v) \<Rightarrow> Some v | _ \<Rightarrow> None))"
proof (intro exI conjI allI)
  let ?outcomes = "map (\<lambda>s. (nameInConfig s,
      case gcp (nameInSecretManager s) of Inl e \<Rightarrow> None | Inr v \<Rightarrow> Some v)) (secrets input)"
  let ?hm = "HashMap_compact (HashMap_fromIterable ?outcomes)"
  show "fetchedSecrets gcp choices input = Inr ?hm"
    by (rule fetchedSecrets_eq)
  show "distinct (map fst ?hm)"
    by (rule distinct_HashMap_compact) (rule distinct_HashMap_fromIterable)
  show "HashMap_get ?hm k =
      (case map_of (rev ?outcomes) k of Some (Some v) \<Rightarrow> Some v | _ \<Rightarrow> None)" for k
    unfolding HashMap_get_def
    by (simp only: map_of_HashMap_compact [OF distinct_HashMap_fromIterable]
        map_of_HashMap_fromIterable)
qed

lemma secretMapForConfigProvider_eq:
  assumes "fetchedSecrets gcp choices input = Inr hm" and "distinct (map fst hm)"
  shows "secretMapForConfigProvider gcp SecretMap choices input h =
     Inr (SecretMap, h(SecretMap := h SecretMap ++ map_of hm))"
  using assms
  by (simp add: secretMapForConfigProvider_def Effect_map_def HashMap_reduce_Map_set
      map_of_rev_distinct)

text \<open>The last spec of the list with a given key decides the outcome kept for the key.\<close>

lemma map_of_rev_last:
  assumes "i < length xs" and "fst (xs ! i) = k"
    and "\<forall>j. i < j \<and> j < length xs \<longrightarrow> fst (xs ! j) \<noteq> k"
  shows "map_of (rev xs) k = Some (snd (xs ! i))"
  using assms
proof (induction xs arbitrary: i rule: rev_induct)
  case Nil
  then show ?case by simp
next
  case (snoc x xs)
  show ?case
  proof (cases "i = length xs")
    case True
    with snoc.prems show ?thesis
      by (cases x) (simp add: nth_append)
  next
    case False
    with snoc.prems have i: "i < length xs" by simp
    have last: "fst x \<noteq> k"
      using snoc.prems(3) [rule_format, of "length xs"] i by simp
    have "map_of (rev xs) k = Some (snd (xs ! i))"
    proof (rule snoc.IH [OF i])
      show "fst (xs ! i) = k"
        using snoc.prems(2) i by (simp add: nth_append)
      show "\<forall>j. i < j \<and> j < length xs \<longrightarrow> fst (xs ! j) \<noteq> k"
      proof (intro allI impI)
        fix j assume j: "i < j \<and> j < length xs"
        then have "fst ((xs @ [x]) ! j) \<noteq> k"
          using snoc.prems(3) [rule_format, of j] by simp
        with j show "fst (xs ! j) \<noteq> k" by (simp add: nth_append)
      qed
    qed
    with last i show ?thesis
      by (cases x) (simp add: nth_append)
  qed
qed

lemma map_of_all_None:
  "\<forall>p \<in> set xs. fst p = k \<longrightarrow> snd p = None \<Longrightarrow> map_of xs k = None \<or> map_of xs k = Some None"
  by (induction xs) auto

text \<open>
  The order in which \<^verbatim>\<open>reduce\<close> visits the entries of the hash map does not show in
  the contents of the object it sets them on.
\<close>

lemma HashMap_reduce_Map_set_order:
  assumes "distinct (map fst es)" and "distinct (map fst es')" and "set es' = set es"
  shows "HashMap_reduce (r, h) (\<lambda>(m, h) val key. (m, Map_set m key val h)) es'
     = HashMap_reduce (r, h) (\<lambda>(m, h) val key. (m, Map_set m key val h)) es"
proof -
  have "map_of es' = map_of es"
    using assms by (simp add: map_of_inject_set)
  then show ?thesis
    using assms by (simp add: HashMap_reduce_Map_set map_of_rev_distinct)
qed

lemma last_key_decides:
  assumes "i < length (secrets input)"
    and "nameInConfig (secrets input ! i) = k"
    and "\<forall>j. i < j \<and> j < length (secrets input) \<longrightarrow> nameInConfig (secrets input ! j) \<noteq> k"
  shows "\<exists>hm. fetchedSecrets (getSecret client (projectId input)) choices input = Inr hm
    \<and> HashMap_get hm k =
        (case getSecret client (projectId input) (nameInSecretManager (secrets input ! i)) of
           Inl e \<Rightarrow> None | Inr v \<Rightarrow> Some v)"
proof -
  let ?gcp = "getSecret client (projectId input)"
  let ?outcomes = "map (\<lambda>s. (nameInConfig s,
      case ?gcp (nameInSecretManager s) of Inl e \<Rightarrow> None | Inr v \<Rightarrow> Some v)) (secrets input)"
  obtain hm where hm: "fetchedSecrets ?gcp choices input = Inr hm"
    and get: "\<And>k. HashMap_get hm k =
      (case map_of (rev ?outcomes) k of Some (Some v) \<Rightarrow> Some v | _ \<Rightarrow> None)"
    using fetchedSecrets_Inr [of ?gcp choices input] by blast
  have "map_of (rev ?outcomes) k = Some (snd (?outcomes ! i))"
    by (rule map_of_rev_last) (use assms in simp_all)
  then have "HashMap_get hm k =
      (case ?gcp (nameInSecretManager (secrets input ! i)) of Inl e \<Rightarrow> None | Inr v \<Rightarrow> Some v)"
    using assms(1) by (simp add: get split: sum.split)
  with hm show ?thesis by blast
qed

lemma fromSecretManager_eq:
  assumes "secretMapForConfigProvider gcp SecretMap choices input h = Inr (secretMap, h')"
  shows "fromSecretManager numberText iteration gcp SecretMap choices input h =
     Inr (ConfigProvider_fromMap numberText iteration (h' secretMap), h')"
  using assms by (simp add: fromSecretManager_def Effect_map_def)

lemma secretMapForConfigProvider_Inr:
  obtains h' where
    "secretMapForConfigProvider gcp SecretMap choices input h = Inr (SecretMap, h')"
proof -
  obtain hm where "fetchedSecrets gcp choices input = Inr hm" and "distinct (map fst hm)"
    using fetchedSecrets_Inr [of gcp choices input] by blast
  then have "secretMapForConfigProvider gcp SecretMap choices input h =
      Inr (SecretMap, h(SecretMap := h SecretMap ++ map_of hm))"
    by (rule secretMapForConfigProvider_eq)
  then show thesis by (rule that)
qed

section \<open>The copy of the map that the provider answers from\<close>

lemma fold_splitIndexInKeys:
  "fold (\<lambda>(pathString, val) newMap. newMap(f pathString \<mapsto> val)) entries m
     = m ++ map_of (rev (map (\<lambda>(pathString, val). (f pathString, val)) entries))"
  by (induction entries arbitrary: m) (auto simp: map_add_def fun_eq_iff split: option.split)

lemma splitIndexInKeys_eq:
  "splitIndexInKeys numberText entries
     = map_of (rev (map (\<lambda>(pathString, val). (splitIndexInKey numberText pathString, val))
         entries))"
  by (simp add: splitIndexInKeys_def fold_splitIndexInKeys)

lemma set_Map_entries:
  "set (Map_entries iteration m) = {(key, val). key \<in> set iteration \<and> m key = Some val}"
  by (auto simp: Map_entries_def split: option.splits)

lemma map_of_only_value:
  assumes "(k, v) \<in> set xs" and "\<forall>v'. (k, v') \<in> set xs \<longrightarrow> v' = v"
  shows "map_of xs k = Some v"
proof (cases "map_of xs k")
  case None
  with assms(1) show ?thesis
    by (force simp: map_of_eq_None_iff)
next
  case (Some v')
  then have "(k, v') \<in> set xs" by (rule map_of_SomeD)
  with assms(2) Some show ?thesis by simp
qed

text \<open>
  A key of the map that the split leaves as it is, and that no other key of the map is
  turned into, is answered with its value.
\<close>

lemma splitIndexInKeys_found:
  assumes "m k = Some v" and "k \<in> set iteration"
    and "splitIndexInKey numberText k = k"
    and "\<forall>k' \<in> dom m. splitIndexInKey numberText k' = k \<longrightarrow> k' = k"
  shows "splitIndexInKeys numberText (Map_entries iteration m) k = Some v"
proof -
  let ?xs = "rev (map (\<lambda>(pathString, val). (splitIndexInKey numberText pathString, val))
      (Map_entries iteration m))"
  have "(k, v) \<in> set ?xs"
    using assms(1-3) by (force simp: set_Map_entries)
  moreover have "\<forall>v'. (k, v') \<in> set ?xs \<longrightarrow> v' = v"
    using assms(1,4) by (auto simp: set_Map_entries)
  ultimately have "map_of ?xs k = Some v"
    by (rule map_of_only_value)
  then show ?thesis
    by (simp add: splitIndexInKeys_eq)
qed

text \<open>A key that no key of the map is turned into is not answered.\<close>

lemma splitIndexInKeys_missing:
  assumes "\<forall>k' \<in> dom m. splitIndexInKey numberText k' \<noteq> k"
  shows "splitIndexInKeys numberText (Map_entries iteration m) k = None"
proof -
  have "k \<notin> fst ` set (rev (map (\<lambda>(pathString, val). (splitIndexInKey numberText pathString, val))
      (Map_entries iteration m)))"
    using assms by (auto simp: set_Map_entries)
  then show ?thesis
    by (simp add: splitIndexInKeys_eq map_of_eq_None_iff)
qed

text \<open>A key without a closing bracket has no index to split.\<close>

lemma joinWith_splitOn: "joinWith d (splitOn d s) = s"
proof (induction s)
  case Nil
  then show ?case by simp
next
  case (Cons c s)
  show ?case
  proof (cases "splitOn d s")
    case Nil
    with Cons show ?thesis by simp
  next
    case outer: (Cons t ts)
    with Cons show ?thesis
      by (cases ts) auto
  qed
qed

lemma splitOn_chars: "set (concat (splitOn d s)) \<subseteq> set s"
proof (induction s)
  case Nil
  then show ?case by simp
next
  case (Cons c s)
  show ?case
  proof (cases "splitOn d s")
    case Nil
    then show ?thesis by simp
  next
    case parts: (Cons t ts)
    with Cons have "set t \<subseteq> set s" and "set (concat ts) \<subseteq> set s"
      by simp_all
    with parts show ?thesis by auto
  qed
qed

lemma splitOn_parts: "part \<in> set (splitOn d s) \<Longrightarrow> set part \<subseteq> set s"
  using splitOn_chars [of d s] by auto

lemma splitIndexFrom_no_bracket: "CHR '']'' \<notin> set key \<Longrightarrow> splitIndexFrom key = None"
  by (cases "rev key") (auto simp: splitIndexFrom_def dest: arg_cong [where f = set])

lemma splitIndexInKey_no_bracket:
  assumes "CHR '']'' \<notin> set k"
  shows "splitIndexInKey numberText k = k"
proof -
  have "splitIndexFrom part = None" if "part \<in> set (splitOn CHR ''.'' k)" for part
    using splitOn_parts [OF that] assms by (intro splitIndexFrom_no_bracket) auto
  then have parts: "map (\<lambda>key. case splitIndexFrom key of
        None \<Rightarrow> [key]
      | Some (key', digits) \<Rightarrow> [key', ''['' @ indexText numberText digits @ '']''])
      (splitOn CHR ''.'' k) = map (\<lambda>key. [key]) (splitOn CHR ''.'' k)"
    by (intro map_cong) simp_all
  have flat: "concat (map (\<lambda>key. [key]) xs) = xs" for xs :: "string list"
    by (induction xs) simp_all
  show ?thesis
    unfolding splitIndexInKey_def by (simp only: parts flat joinWith_splitOn)
qed

text \<open>The split on some keys.\<close>

lemma splitIndexInKey_examples:
  "splitIndexInKey numberText ''K[0]'' = ''K.[0]''"
  "splitIndexInKey numberText ''K[007]'' = ''K.[7]''"
  "splitIndexInKey numberText ''a[1].b[22]'' = ''a.[1].b.[22]''"
  "splitIndexInKey numberText ''a[0][1]'' = ''a[0].[1]''"
  "splitIndexInKey numberText ''K.[0]'' = ''K.[0]''"
  "splitIndexInKey numberText ''[0]'' = ''[0]''"
  "splitIndexInKey numberText ''K[]'' = ''K[]''"
  "splitIndexInKey numberText ''K[0]x'' = ''K[0]x''"
  "splitIndexInKey numberText [CHR ''K'', CHR 0x0A, CHR ''['', CHR ''0'', CHR '']'']
     = [CHR ''K'', CHR 0x0A, CHR ''['', CHR ''0'', CHR '']'']"
  "splitIndexInKey numberText ''K[9007199254740993]''
     = ''K.['' @ numberText ''9007199254740993'' @ '']''"
  by (simp_all add: splitIndexInKey_def splitIndexFrom_def isDigit_def indexText_def
      parseInt_def decimal.simps)

text \<open>
  Two keys of a map that get the same new key: the one that the map iterates last is the
  one answered.
\<close>

lemma fromMap_same_new_key:
  "ConfigProvider_fromMap numberText [''K[0]'', ''K.[0]'']
     [''K[0]'' \<mapsto> ''1'', ''K.[0]'' \<mapsto> ''2''] env ''K.[0]'' = Inr ''2''"
  "ConfigProvider_fromMap numberText [''K.[0]'', ''K[0]'']
     [''K[0]'' \<mapsto> ''1'', ''K.[0]'' \<mapsto> ''2''] env ''K.[0]'' = Inr ''1''"
  by (simp_all add: ConfigProvider_fromMap_def splitIndexInKeys_def Map_entries_def
      splitIndexInKey_examples)

section \<open>What the layers build\<close>

lemma GcpSecretManager_scoped_eq:
  "GcpSecretManager_scoped newClient project w =
     (getSecret newClient project,
      w\<lparr>events := events w @ [ClientConstructed], finalizers := CloseClient # finalizers w\<rparr>)"
  by (simp add: GcpSecretManager_scoped_def Effect_acquireRelease_def)

lemma unwrapScoped_provided_Inr:
  assumes "effect (getSecret newClient project) (objects w) = Inr (provider, h)"
  shows "unwrapScoped_provided newClient project effect w =
     (Inr provider,
      w\<lparr>objects := h, events := events w @ [ClientConstructed],
        finalizers := CloseClient # finalizers w\<rparr>)"
  using assms by (simp add: unwrapScoped_provided_def GcpSecretManager_scoped_eq)

lemma layerGcp_eq:
  assumes "secretMapForConfigProvider (getSecret newClient (projectId input)) SecretMap choices
      input (objects w) = Inr (secretMap, h')"
  shows "layerGcp numberText iteration newClient SecretMap choices input w =
     (Inr (ConfigProvider_fromMap numberText iteration (h' secretMap)),
      w\<lparr>objects := h', events := events w @ [ClientConstructed],
        finalizers := CloseClient # finalizers w\<rparr>)"
  unfolding layerGcp_def
  by (rule unwrapScoped_provided_Inr) (rule fromSecretManager_eq [OF assms])

lemma layerGcpWithEnvFallback_eq:
  assumes "secretMapForConfigProvider (getSecret newClient (projectId input)) SecretMap choices
      input (objects w) = Inr (secretMap, h')"
  shows "layerGcpWithEnvFallback numberText iteration newClient SecretMap choices input w =
     (Inr (ConfigProvider_orElse (\<lambda>u. ConfigProvider_fromEnv ())
             (ConfigProvider_fromMap numberText iteration (h' secretMap))),
      w\<lparr>objects := h', events := events w @ [ClientConstructed],
        finalizers := CloseClient # finalizers w\<rparr>)"
  unfolding layerGcpWithEnvFallback_def
  by (rule unwrapScoped_provided_Inr)
    (simp add: fromSecretManager_eq [OF assms] Effect_map_def)

lemma layerGcpWithJsonFallback_eq:
  assumes "secretMapForConfigProvider (getSecret newClient (projectId input)) SecretMap choices
      input (objects w) = Inr (secretMap, h')"
  shows "layerGcpWithJsonFallback numberText iteration fromJson newClient SecretMap choices
        json input w =
     (Inr (ConfigProvider_orElse (\<lambda>u. fromJson json)
             (ConfigProvider_fromMap numberText iteration (h' secretMap))),
      w\<lparr>objects := h', events := events w @ [ClientConstructed],
        finalizers := CloseClient # finalizers w\<rparr>)"
  unfolding layerGcpWithJsonFallback_def
  by (rule unwrapScoped_provided_Inr)
    (simp add: fromSecretManager_eq [OF assms] Effect_map_def)

section \<open>The aggregation tolerates failing fetches\<close>

text \<open>
  Claim C1, as stated: no failing fetch makes the aggregation raise, a failing fetch
  becomes an absent outcome without touching the others, the failing keys are absent
  from the resulting map, and the result is the seed map when every fetch fails. The
  third part fails on a seed map that holds the key of a failing fetch: the seed map
  \<open>{K: old}\<close>, the one spec \<open>K\<close> and a store that rejects every request give a result
  that still holds \<open>K\<close>.
\<close>

theorem failing_key_present_from_seed_counterexample:
  "getSecret (\<lambda>name. Rejected) ''p'' ''K'' = Inl UnknownException
   \<and> secretMapForConfigProvider (getSecret (\<lambda>name. Rejected) ''p'') 0 []
        \<lparr>projectId = ''p'', secrets = [Str ''K'']\<rparr> ((\<lambda>r. Map.empty)(0 := [''K'' \<mapsto> ''old'']))
      = Inr (0, (\<lambda>r. Map.empty)(0 := [''K'' \<mapsto> ''old'']))
   \<and> ((\<lambda>r. Map.empty)(0 := [''K'' \<mapsto> ''old''])) (0::nat) ''K'' = Some ''old''"
proof -
  obtain hm where hm: "fetchedSecrets (getSecret (\<lambda>name. Rejected) ''p'') []
      \<lparr>projectId = ''p'', secrets = [Str ''K'']\<rparr> = Inr hm"
    and d: "distinct (map fst hm)"
    using fetchedSecrets_Inr by blast
  have "hm = []"
    using hm
    by (simp add: fetchedSecrets_eq HashMap_fromIterable_def nameInConfig_def
        nameInSecretManager_def getSecret_def)
  then show ?thesis
    using secretMapForConfigProvider_eq [OF hm d, of 0 "(\<lambda>r. Map.empty)(0 := [''K'' \<mapsto> ''old''])"]
    by (simp add: getSecret_def)
qed

text \<open>
  Claim C1, amended: for every non-empty list of specs the aggregation returns a map
  and never raises; the outcomes are one per spec, each decided by the fetch of its own
  spec, a failure giving the absent outcome; a key all of whose fetches fail gets no
  fetched entry, so the result holds for it what the seed map holds (nothing when the
  seed map lacks it); and when every fetch fails the result is the seed map unchanged.
\<close>

theorem fetch_failures_are_tolerated:
  fixes client :: SecretManagerServiceClient and input :: ConfigProviderInput
  defines "gcp \<equiv> getSecret client (projectId input)"
  assumes "secrets input \<noteq> []"
  shows "\<exists>h'.
      Effect_forEach (secrets input) (fetchSecret gcp) choices =
        Inr (map (\<lambda>s. (nameInConfig s,
                        case gcp (nameInSecretManager s) of Inl e \<Rightarrow> None | Inr v \<Rightarrow> Some v))
               (secrets input))
    \<and> secretMapForConfigProvider gcp SecretMap choices input h = Inr (SecretMap, h')
    \<and> (\<forall>k. (\<forall>s \<in> set (secrets input). nameInConfig s = k \<longrightarrow> isl (gcp (nameInSecretManager s)))
           \<longrightarrow> h' SecretMap k = h SecretMap k)
    \<and> ((\<forall>s \<in> set (secrets input). isl (gcp (nameInSecretManager s))) \<longrightarrow> h' = h)"
proof -
  let ?outcomes = "map (\<lambda>s. (nameInConfig s,
      case gcp (nameInSecretManager s) of Inl e \<Rightarrow> None | Inr v \<Rightarrow> Some v)) (secrets input)"
  obtain hm where hm: "fetchedSecrets gcp choices input = Inr hm"
    and d: "distinct (map fst hm)"
    and get: "\<And>k. HashMap_get hm k =
      (case map_of (rev ?outcomes) k of Some (Some v) \<Rightarrow> Some v | _ \<Rightarrow> None)"
    using fetchedSecrets_Inr [of gcp choices input] by blast
  let ?h' = "h(SecretMap := h SecretMap ++ map_of hm)"
  have unfetched: "?h' SecretMap k = h SecretMap k"
    if "\<forall>s \<in> set (secrets input). nameInConfig s = k \<longrightarrow> isl (gcp (nameInSecretManager s))"
    for k
  proof -
    have "\<forall>p \<in> set (rev ?outcomes). fst p = k \<longrightarrow> snd p = None"
      using that by (auto split: sum.split)
    then have "map_of (rev ?outcomes) k = None \<or> map_of (rev ?outcomes) k = Some None"
      by (rule map_of_all_None)
    then have "HashMap_get hm k = None"
      unfolding get by auto
    then show ?thesis
      by (simp add: HashMap_get_def map_add_def)
  qed
  have "?h' = h" if "\<forall>s \<in> set (secrets input). isl (gcp (nameInSecretManager s))"
  proof -
    have "?h' SecretMap k = h SecretMap k" for k
      using that by (intro unfetched) simp
    then have "?h' SecretMap = h SecretMap" by (rule ext)
    then show ?thesis by (simp add: fun_eq_iff)
  qed
  moreover have "secretMapForConfigProvider gcp SecretMap choices input h = Inr (SecretMap, ?h')"
    using hm d by (rule secretMapForConfigProvider_eq)
  moreover have "Effect_forEach (secrets input) (fetchSecret gcp) choices = Inr ?outcomes"
    by (rule forEach_fetchSecret)
  ultimately show ?thesis
    using unfetched by blast
qed

theorem fetch_failures_are_tolerated_witness:
  "secrets \<lparr>projectId = ''p'', secrets = [Str ''MISSING'', Str ''PRESENT'']\<rparr> \<noteq> []
   \<and> (\<exists>h'. secretMapForConfigProvider (getSecret exampleClient ''p'') 0 [1, 0]
          \<lparr>projectId = ''p'', secrets = [Str ''MISSING'', Str ''PRESENT'']\<rparr> (\<lambda>r. Map.empty)
          = Inr (0, h')
        \<and> h' 0 ''MISSING'' = None)
   \<and> secretMapForConfigProvider (getSecret exampleClient ''p'') 0 []
          \<lparr>projectId = ''p'', secrets = [Str ''MISSING'', Str ''EMPTY'']\<rparr>
          ((\<lambda>r. Map.empty)(0 := [''SEED'' \<mapsto> ''kept'']))
        = Inr (0, (\<lambda>r. Map.empty)(0 := [''SEED'' \<mapsto> ''kept'']))"
proof -
  let ?input = "\<lparr>projectId = ''p'', secrets = [Str ''MISSING'', Str ''PRESENT'']\<rparr>"
  let ?failing = "\<lparr>projectId = ''p'', secrets = [Str ''MISSING'', Str ''EMPTY'']\<rparr>"
  have ne: "secrets ?input \<noteq> []" by simp
  have ne': "secrets ?failing \<noteq> []" by simp
  have fails: "\<forall>s \<in> set (secrets ?input). nameInConfig s = ''MISSING''
      \<longrightarrow> isl (getSecret exampleClient (projectId ?input) (nameInSecretManager s))"
    by (simp add: nameInConfig_def nameInSecretManager_def getSecret_def secretVersionName_def
        exampleClient_def)
  have all_fail: "\<forall>s \<in> set (secrets ?failing).
      isl (getSecret exampleClient (projectId ?failing) (nameInSecretManager s))"
    by (simp add: nameInSecretManager_def getSecret_def secretVersionName_def exampleClient_def)
  have one: "\<exists>h'. secretMapForConfigProvider (getSecret exampleClient ''p'') 0 [1, 0]
      ?input (\<lambda>r. Map.empty) = Inr (0, h') \<and> h' 0 ''MISSING'' = None"
    using fetch_failures_are_tolerated [OF ne, of exampleClient "[1, 0]" 0 "\<lambda>r. Map.empty"] fails
    by auto
  have all: "secretMapForConfigProvider (getSecret exampleClient ''p'') 0 [] ?failing
      ((\<lambda>r. Map.empty)(0 := [''SEED'' \<mapsto> ''kept'']))
      = Inr (0, (\<lambda>r. Map.empty)(0 := [''SEED'' \<mapsto> ''kept'']))"
    using fetch_failures_are_tolerated [OF ne', of exampleClient "[]" 0
        "(\<lambda>r. Map.empty)(0 := [''SEED'' \<mapsto> ''kept''])"] all_fail
    by auto
  show ?thesis
    using one all by simp
qed

section \<open>The merge onto the seed map\<close>

text \<open>
  Claim C2: in the merge onto the seed map, a key of the fetch result gets the fetched
  value, also when the seed map holds the key, and a key that only the seed map holds
  keeps its seed value.
\<close>

theorem merge_overwrites_seed:
  "\<exists>hm h'.
      fetchedSecrets (getSecret client (projectId input)) choices input = Inr hm
    \<and> secretMapForConfigProvider (getSecret client (projectId input)) SecretMap choices input h
        = Inr (SecretMap, h')
    \<and> (\<forall>k. h' SecretMap k =
          (case HashMap_get hm k of Some fetched \<Rightarrow> Some fetched | None \<Rightarrow> h SecretMap k))"
proof -
  obtain hm where hm: "fetchedSecrets (getSecret client (projectId input)) choices input = Inr hm"
    and d: "distinct (map fst hm)"
    using fetchedSecrets_Inr by blast
  have "secretMapForConfigProvider (getSecret client (projectId input)) SecretMap choices input h
      = Inr (SecretMap, h(SecretMap := h SecretMap ++ map_of hm))"
    using hm d by (rule secretMapForConfigProvider_eq)
  moreover have "(h(SecretMap := h SecretMap ++ map_of hm)) SecretMap k =
      (case HashMap_get hm k of Some fetched \<Rightarrow> Some fetched | None \<Rightarrow> h SecretMap k)" for k
    by (simp add: HashMap_get_def map_add_def split: option.split)
  ultimately show ?thesis
    using hm by blast
qed

theorem merge_overwrites_seed_witness:
  "\<exists>h'. secretMapForConfigProvider (getSecret exampleClient ''p'') 0 []
       \<lparr>projectId = ''p'', secrets = [Str ''PRESENT'']\<rparr>
       ((\<lambda>r. Map.empty)(0 := [''PRESENT'' \<mapsto> ''seed'', ''OTHER'' \<mapsto> ''kept'']))
       = Inr (0, h')
     \<and> h' 0 ''PRESENT'' = Some ''ok'' \<and> h' 0 ''OTHER'' = Some ''kept''"
proof -
  let ?input = "\<lparr>projectId = ''p'', secrets = [Str ''PRESENT'']\<rparr>"
  let ?h = "(\<lambda>r. Map.empty)(0 := [''PRESENT'' \<mapsto> ''seed'', ''OTHER'' \<mapsto> ''kept''])"
  have fetched: "fetchedSecrets (getSecret exampleClient (projectId ?input)) [] ?input
      = Inr [(''PRESENT'', ''ok'')]"
    by (simp add: fetchedSecrets_eq HashMap_fromIterable_def nameInConfig_def
        nameInSecretManager_def getSecret_def secretVersionName_def exampleClient_def)
  show ?thesis
    using merge_overwrites_seed [of exampleClient ?input "[]" 0 ?h] fetched
    by (auto simp: HashMap_get_def)
qed

section \<open>Two specs with the same key\<close>

text \<open>
  Claim C3, as stated: when two specs have the same key, the fetch that completes last
  decides the value. It fails: with the specs \<open>{a, K}\<close> and \<open>{b, K}\<close>, in this order,
  and the fetch of \<open>b\<close> completing first and that of \<open>a\<close> last, the value kept for
  \<open>K\<close> is the one of \<open>b\<close>, as it is when the fetches complete in the order of the
  list.
\<close>

theorem last_completed_does_not_win_counterexample:
  "completion_order [1, 0] [0..<2] = [1, 0]
   \<and> getSecret exampleClient ''p'' ''a'' = Inr ''1''
   \<and> fetchedSecrets (getSecret exampleClient ''p'') [1, 0]
        \<lparr>projectId = ''p'', secrets = [Obj ''a'' ''K'', Obj ''b'' ''K'']\<rparr> = Inr [(''K'', ''2'')]
   \<and> completion_order [0, 0] [0..<2] = [0, 1]
   \<and> fetchedSecrets (getSecret exampleClient ''p'') [0, 0]
        \<lparr>projectId = ''p'', secrets = [Obj ''a'' ''K'', Obj ''b'' ''K'']\<rparr> = Inr [(''K'', ''2'')]"
proof -
  have upt: "[0..<2] = [0, Suc 0]"
    by (simp add: upt_rec)
  have fetched: "fetchedSecrets (getSecret exampleClient ''p'') choices
      \<lparr>projectId = ''p'', secrets = [Obj ''a'' ''K'', Obj ''b'' ''K'']\<rparr> = Inr [(''K'', ''2'')]"
    for choices
    by (simp add: fetchedSecrets_eq HashMap_fromIterable_def nameInConfig_def
        nameInSecretManager_def getSecret_def secretVersionName_def exampleClient_def)
  have "getSecret exampleClient ''p'' ''a'' = Inr ''1''"
    by (simp add: getSecret_def secretVersionName_def exampleClient_def)
  then show ?thesis
    by (simp add: fetched upt)
qed

text \<open>
  Claim C3, amended: when several specs of the list have the same key, the value kept
  is decided by the order of the list and not by the order in which the fetches
  complete: when the fetch of the last of these specs in the list succeeds, its value
  is the one kept under the key, for every order of completion.
\<close>

theorem last_spec_in_list_wins:
  assumes "i < length (secrets input)"
    and "nameInConfig (secrets input ! i) = k"
    and "\<forall>j. i < j \<and> j < length (secrets input) \<longrightarrow> nameInConfig (secrets input ! j) \<noteq> k"
    and "getSecret client (projectId input) (nameInSecretManager (secrets input ! i)) = Inr v"
  shows "\<exists>hm. fetchedSecrets (getSecret client (projectId input)) choices input = Inr hm
    \<and> HashMap_get hm k = Some v"
  using last_key_decides [OF assms(1-3), of client choices] assms(4) by simp

theorem last_spec_in_list_wins_witness:
  "\<exists>hm. fetchedSecrets (getSecret exampleClient ''p'') [1, 0]
       \<lparr>projectId = ''p'', secrets = [Obj ''a'' ''K'', Obj ''b'' ''K'']\<rparr> = Inr hm
     \<and> HashMap_get hm ''K'' = Some ''2''"
proof -
  let ?input = "\<lparr>projectId = ''p'', secrets = [Obj ''a'' ''K'', Obj ''b'' ''K'']\<rparr>"
  have i: "1 < length (secrets ?input)" by simp
  have k: "nameInConfig (secrets ?input ! 1) = ''K''"
    by (simp add: nameInConfig_def)
  have later: "\<forall>j. 1 < j \<and> j < length (secrets ?input) \<longrightarrow> nameInConfig (secrets ?input ! j) \<noteq> ''K''"
    by auto
  have fetch: "getSecret exampleClient (projectId ?input) (nameInSecretManager (secrets ?input ! 1))
      = Inr ''2''"
    by (simp add: nameInSecretManager_def getSecret_def secretVersionName_def exampleClient_def)
  show ?thesis
    using last_spec_in_list_wins [OF i k later fetch, of "[1, 0]"] by simp
qed

section \<open>The two forms of a spec\<close>

text \<open>
  Claim C7, as stated: the value fetched for every spec is stored in the resulting map
  under the configuration key of the spec. It fails for a spec that is followed in the
  list by another spec with the same key: with the specs \<open>{a, K}\<close> and \<open>{b, K}\<close> the
  value \<open>1\<close> fetched for \<open>a\<close> is not stored, the map holds the value \<open>2\<close> of \<open>b\<close>
  under \<open>K\<close>.
\<close>

theorem earlier_spec_value_not_stored_counterexample:
  "getSecret exampleClient ''p'' ''a'' = Inr ''1''
   \<and> secretMapForConfigProvider (getSecret exampleClient ''p'') 0 []
        \<lparr>projectId = ''p'', secrets = [Obj ''a'' ''K'', Obj ''b'' ''K'']\<rparr> (\<lambda>r. Map.empty)
      = Inr (0, (\<lambda>r. Map.empty)(0 := [''K'' \<mapsto> ''2'']))"
proof -
  let ?input = "\<lparr>projectId = ''p'', secrets = [Obj ''a'' ''K'', Obj ''b'' ''K'']\<rparr>"
  have fetched: "fetchedSecrets (getSecret exampleClient ''p'') [] ?input = Inr [(''K'', ''2'')]"
    by (simp add: fetchedSecrets_eq HashMap_fromIterable_def nameInConfig_def
        nameInSecretManager_def getSecret_def secretVersionName_def exampleClient_def)
  have "getSecret exampleClient ''p'' ''a'' = Inr ''1''"
    by (simp add: getSecret_def secretVersionName_def exampleClient_def)
  then show ?thesis
    using secretMapForConfigProvider_eq [OF fetched, of 0 "\<lambda>r. Map.empty"] by simp
qed

text \<open>
  Claim C7, amended: a spec given as a pair is fetched from the store under its name in
  the store, and the value fetched is its outcome under its configuration key; a spec
  given as a bare name uses the name for both. The value is stored in the resulting
  map under the configuration key when no later spec of the list has the same key.
\<close>

theorem spec_forms_fetch_and_store:
  assumes "i < length (secrets input)"
  shows "\<exists>outcomes h'.
      Effect_forEach (secrets input) (fetchSecret (getSecret client (projectId input))) choices
        = Inr outcomes
    \<and> secretMapForConfigProvider (getSecret client (projectId input)) SecretMap choices
          input h = Inr (SecretMap, h')
    \<and> (\<forall>m c v. secrets input ! i = Obj m c
          \<and> client (secretVersionName (projectId input) m) = Resolved (Some v)
          \<longrightarrow> outcomes ! i = (c, Some v)
            \<and> ((\<forall>j. i < j \<and> j < length (secrets input)
                    \<longrightarrow> nameInConfig (secrets input ! j) \<noteq> c)
                 \<longrightarrow> h' SecretMap c = Some v))
    \<and> (\<forall>n v. secrets input ! i = Str n
          \<and> client (secretVersionName (projectId input) n) = Resolved (Some v)
          \<longrightarrow> outcomes ! i = (n, Some v)
            \<and> ((\<forall>j. i < j \<and> j < length (secrets input)
                    \<longrightarrow> nameInConfig (secrets input ! j) \<noteq> n)
                 \<longrightarrow> h' SecretMap n = Some v))"
proof -
  let ?gcp = "getSecret client (projectId input)"
  let ?s = "secrets input ! i"
  let ?outcomes = "map (\<lambda>s. (nameInConfig s,
      case ?gcp (nameInSecretManager s) of Inl e \<Rightarrow> None | Inr v \<Rightarrow> Some v)) (secrets input)"
  obtain hm where hm: "fetchedSecrets ?gcp choices input = Inr hm"
    and d: "distinct (map fst hm)"
    using fetchedSecrets_Inr by blast
  let ?h' = "h(SecretMap := h SecretMap ++ map_of hm)"
  have outcomes: "Effect_forEach (secrets input) (fetchSecret ?gcp) choices = Inr ?outcomes"
    by (rule forEach_fetchSecret)
  have run: "secretMapForConfigProvider ?gcp SecretMap choices input h = Inr (SecretMap, ?h')"
    using hm d by (rule secretMapForConfigProvider_eq)
  have fetched: "?outcomes ! i = (nameInConfig ?s, Some v)"
    if "client (secretVersionName (projectId input) (nameInSecretManager ?s)) = Resolved (Some v)"
    for v
    using assms that by (simp add: getSecret_def)
  have kept: "?h' SecretMap (nameInConfig ?s) = Some v"
    if "client (secretVersionName (projectId input) (nameInSecretManager ?s)) = Resolved (Some v)"
      and later: "\<forall>j. i < j \<and> j < length (secrets input)
        \<longrightarrow> nameInConfig (secrets input ! j) \<noteq> nameInConfig ?s"
    for v
  proof -
    obtain hm' where "fetchedSecrets ?gcp choices input = Inr hm'"
      and "HashMap_get hm' (nameInConfig ?s) =
        (case ?gcp (nameInSecretManager ?s) of Inl e \<Rightarrow> None | Inr v \<Rightarrow> Some v)"
      using last_key_decides [OF assms refl later, of client choices] by blast
    with hm have "HashMap_get hm (nameInConfig ?s) =
        (case ?gcp (nameInSecretManager ?s) of Inl e \<Rightarrow> None | Inr v \<Rightarrow> Some v)"
      by simp
    with that(1) show ?thesis
      by (simp add: HashMap_get_def getSecret_def)
  qed
  have pair: "?outcomes ! i = (c, Some v)
      \<and> ((\<forall>j. i < j \<and> j < length (secrets input) \<longrightarrow> nameInConfig (secrets input ! j) \<noteq> c)
           \<longrightarrow> ?h' SecretMap c = Some v)"
    if "?s = Obj m c \<and> client (secretVersionName (projectId input) m) = Resolved (Some v)"
    for m c v
    using fetched [of v] kept [of v] that
    by (simp add: nameInConfig_def nameInSecretManager_def)
  have bare: "?outcomes ! i = (n, Some v)
      \<and> ((\<forall>j. i < j \<and> j < length (secrets input) \<longrightarrow> nameInConfig (secrets input ! j) \<noteq> n)
           \<longrightarrow> ?h' SecretMap n = Some v)"
    if "?s = Str n \<and> client (secretVersionName (projectId input) n) = Resolved (Some v)"
    for n v
    using fetched [of v] kept [of v] that
    by (simp add: nameInConfig_def nameInSecretManager_def)
  show ?thesis
    using outcomes run pair bare by blast
qed

theorem spec_forms_fetch_and_store_witness:
  "\<exists>outcomes h'.
     Effect_forEach [Obj ''api-key'' ''API_KEY'', Str ''PRESENT'']
       (fetchSecret (getSecret exampleClient ''p'')) [] = Inr outcomes
     \<and> secretMapForConfigProvider (getSecret exampleClient ''p'') 0 []
       \<lparr>projectId = ''p'', secrets = [Obj ''api-key'' ''API_KEY'', Str ''PRESENT'']\<rparr>
       (\<lambda>r. Map.empty) = Inr (0, h')
     \<and> outcomes ! 0 = (''API_KEY'', Some ''xyz'')
     \<and> h' 0 ''API_KEY'' = Some ''xyz''
     \<and> outcomes ! 1 = (''PRESENT'', Some ''ok'')
     \<and> h' 0 ''PRESENT'' = Some ''ok''"
proof -
  let ?input = "\<lparr>projectId = ''p'', secrets = [Obj ''api-key'' ''API_KEY'', Str ''PRESENT'']\<rparr>"
  have i: "0 < length (secrets ?input)" by simp
  have i': "1 < length (secrets ?input)" by simp
  have later: "\<forall>j. 0 < j \<and> j < length (secrets ?input)
      \<longrightarrow> nameInConfig (secrets ?input ! j) \<noteq> ''API_KEY''"
    by (auto simp: nameInConfig_def less_Suc_eq)
  have later': "\<forall>j. 1 < j \<and> j < length (secrets ?input)
      \<longrightarrow> nameInConfig (secrets ?input ! j) \<noteq> ''PRESENT''"
    by auto
  have store: "secrets ?input ! 0 = Obj ''api-key'' ''API_KEY''
      \<and> exampleClient (secretVersionName (projectId ?input) ''api-key'') = Resolved (Some ''xyz'')"
    by (simp add: secretVersionName_def exampleClient_def)
  have store': "secrets ?input ! 1 = Str ''PRESENT''
      \<and> exampleClient (secretVersionName (projectId ?input) ''PRESENT'') = Resolved (Some ''ok'')"
    by (simp add: secretVersionName_def exampleClient_def)
  obtain outcomes h' where
    outcomes: "Effect_forEach (secrets ?input)
        (fetchSecret (getSecret exampleClient (projectId ?input))) [] = Inr outcomes"
    and run: "secretMapForConfigProvider (getSecret exampleClient (projectId ?input))
        0 [] ?input (\<lambda>r. Map.empty) = Inr (0, h')"
    and pair: "\<forall>m c v. secrets ?input ! 0 = Obj m c
        \<and> exampleClient (secretVersionName (projectId ?input) m) = Resolved (Some v)
        \<longrightarrow> outcomes ! 0 = (c, Some v)
          \<and> ((\<forall>j. 0 < j \<and> j < length (secrets ?input)
                  \<longrightarrow> nameInConfig (secrets ?input ! j) \<noteq> c)
               \<longrightarrow> h' 0 c = Some v)"
    using spec_forms_fetch_and_store [OF i, of exampleClient "[]" 0 "\<lambda>r. Map.empty"]
    by blast
  obtain outcomes' h'' where
    outcomes': "Effect_forEach (secrets ?input)
        (fetchSecret (getSecret exampleClient (projectId ?input))) [] = Inr outcomes'"
    and run': "secretMapForConfigProvider (getSecret exampleClient (projectId ?input))
        0 [] ?input (\<lambda>r. Map.empty) = Inr (0, h'')"
    and bare: "\<forall>n v. secrets ?input ! 1 = Str n
        \<and> exampleClient (secretVersionName (projectId ?input) n) = Resolved (Some v)
        \<longrightarrow> outcomes' ! 1 = (n, Some v)
          \<and> ((\<forall>j. 1 < j \<and> j < length (secrets ?input)
                  \<longrightarrow> nameInConfig (secrets ?input ! j) \<noteq> n)
               \<longrightarrow> h'' 0 n = Some v)"
    using spec_forms_fetch_and_store [OF i', of exampleClient "[]" 0 "\<lambda>r. Map.empty"]
    by blast
  have same: "outcomes' = outcomes" "h'' = h'"
    using outcomes outcomes' run run' by simp_all
  have "outcomes ! 0 = (''API_KEY'', Some ''xyz'') \<and> h' 0 ''API_KEY'' = Some ''xyz''"
    using pair store later by blast
  moreover have "outcomes ! 1 = (''PRESENT'', Some ''ok'') \<and> h' 0 ''PRESENT'' = Some ''ok''"
    using bare store' later' unfolding same by blast
  ultimately show ?thesis
    using outcomes run by auto
qed

section \<open>The seed map is updated in place\<close>

text \<open>
  Claim C10: the merge sets the fetched entries on the seed map object itself and
  returns that object, from which the provider is built: after the aggregation the
  object holds every fetched entry, and no other object of the store has changed.
\<close>

theorem seed_map_mutated_in_place:
  "\<exists>hm h'.
      fetchedSecrets (getSecret client (projectId input)) choices input = Inr hm
    \<and> secretMapForConfigProvider (getSecret client (projectId input)) SecretMap choices input h
        = Inr (SecretMap, h')
    \<and> fromSecretManager numberText iteration (getSecret client (projectId input)) SecretMap
          choices input h
        = Inr (ConfigProvider_fromMap numberText iteration (h' SecretMap), h')
    \<and> (\<forall>k v. HashMap_get hm k = Some v \<longrightarrow> h' SecretMap k = Some v)
    \<and> (\<forall>r. r \<noteq> SecretMap \<longrightarrow> h' r = h r)"
proof -
  let ?gcp = "getSecret client (projectId input)"
  obtain hm where hm: "fetchedSecrets ?gcp choices input = Inr hm"
    and d: "distinct (map fst hm)"
    using fetchedSecrets_Inr by blast
  let ?h' = "h(SecretMap := h SecretMap ++ map_of hm)"
  have run: "secretMapForConfigProvider ?gcp SecretMap choices input h = Inr (SecretMap, ?h')"
    using hm d by (rule secretMapForConfigProvider_eq)
  then have "fromSecretManager numberText iteration ?gcp SecretMap choices input h
      = Inr (ConfigProvider_fromMap numberText iteration (?h' SecretMap), ?h')"
    by (rule fromSecretManager_eq)
  moreover have "\<forall>k v. HashMap_get hm k = Some v \<longrightarrow> ?h' SecretMap k = Some v"
    by (simp add: HashMap_get_def map_add_def)
  moreover have "\<forall>r. r \<noteq> SecretMap \<longrightarrow> ?h' r = h r"
    by simp
  ultimately show ?thesis
    using hm run by blast
qed

theorem seed_map_mutated_in_place_witness:
  "\<exists>h'. secretMapForConfigProvider (getSecret exampleClient ''p'') 0 []
       \<lparr>projectId = ''p'', secrets = [Str ''PRESENT'']\<rparr>
       ((\<lambda>r. Map.empty)(1 := [''X'' \<mapsto> ''y''])) = Inr (0, h')
     \<and> h' 0 ''PRESENT'' = Some ''ok'' \<and> h' 1 = [''X'' \<mapsto> ''y'']"
proof -
  let ?input = "\<lparr>projectId = ''p'', secrets = [Str ''PRESENT'']\<rparr>"
  have fetched: "fetchedSecrets (getSecret exampleClient (projectId ?input)) [] ?input
      = Inr [(''PRESENT'', ''ok'')]"
    by (simp add: fetchedSecrets_eq HashMap_fromIterable_def nameInConfig_def
        nameInSecretManager_def getSecret_def secretVersionName_def exampleClient_def)
  show ?thesis
    using seed_map_mutated_in_place [where client = exampleClient and input = ?input
        and choices = "[]" and SecretMap = 0 and numberText = "\<lambda>digits. digits"
        and iteration = "[''PRESENT'']"
        and h = "(\<lambda>r. Map.empty)(1 := [''X'' \<mapsto> ''y''])"] fetched
    by (auto simp: HashMap_get_def)
qed

section \<open>Lookups through the providers\<close>

text \<open>
  A run for the examples below: the one spec \<open>{PRESENT, K[0]}\<close> on an empty seed map
  gives the map \<open>{K[0]: ok}\<close>, and the provider built from it answers the key \<open>K.[0]\<close>
  and no other.
\<close>

lemma indexed_key_run:
  "secretMapForConfigProvider
     (getSecret exampleClient (projectId \<lparr>projectId = ''p'', secrets = [Obj ''PRESENT'' ''K[0]'']\<rparr>))
     0 [] \<lparr>projectId = ''p'', secrets = [Obj ''PRESENT'' ''K[0]'']\<rparr>
     (objects \<lparr>objects = \<lambda>r. Map.empty, events = [], finalizers = []\<rparr>)
   = Inr (0, (\<lambda>r. Map.empty)(0 := [''K[0]'' \<mapsto> ''ok'']))"
proof -
  let ?input = "\<lparr>projectId = ''p'', secrets = [Obj ''PRESENT'' ''K[0]'']\<rparr>"
  have fetched: "fetchedSecrets (getSecret exampleClient (projectId ?input)) [] ?input
      = Inr [(''K[0]'', ''ok'')]"
    by (simp add: fetchedSecrets_eq HashMap_fromIterable_def nameInConfig_def
        nameInSecretManager_def getSecret_def secretVersionName_def exampleClient_def)
  show ?thesis
    using secretMapForConfigProvider_eq [OF fetched, of 0 "\<lambda>r. Map.empty"] by simp
qed

lemma indexed_key_provider:
  "ConfigProvider_fromMap numberText [''K[0]''] [''K[0]'' \<mapsto> ''ok''] env key
     = (if key = ''K.[0]'' then Inr ''ok'' else Inl (MissingData key))"
proof -
  have "splitIndexInKey numberText ''K[0]'' = ''K.[0]''"
    by (simp add: splitIndexInKey_def splitIndexFrom_def isDigit_def indexText_def
        parseInt_def decimal.simps)
  then have "splitIndexInKeys numberText (Map_entries [''K[0]''] [''K[0]'' \<mapsto> ''ok''])
      = [''K.[0]'' \<mapsto> ''ok'']"
    by (simp add: splitIndexInKeys_def Map_entries_def)
  then show ?thesis
    by (simp add: ConfigProvider_fromMap_def)
qed

text \<open>
  Claim C6, as stated: the provider of the secrets-only layer answers every key of the
  map with the value the map holds and reports every other key as not found. It fails
  on a key that ends in an index: the map \<open>{K[0]: ok}\<close> holds \<open>K[0]\<close> and not \<open>K.[0]\<close>,
  and the provider reports \<open>K[0]\<close> as missing and answers \<open>K.[0]\<close>.
\<close>

theorem indexed_key_not_answered_counterexample:
  "secretMapForConfigProvider (getSecret exampleClient ''p'') 0 []
      \<lparr>projectId = ''p'', secrets = [Obj ''PRESENT'' ''K[0]'']\<rparr> (\<lambda>r. Map.empty)
     = Inr (0, (\<lambda>r. Map.empty)(0 := [''K[0]'' \<mapsto> ''ok'']))
   \<and> (case fst (layerGcp (\<lambda>digits. digits) [''K[0]''] exampleClient 0 []
          \<lparr>projectId = ''p'', secrets = [Obj ''PRESENT'' ''K[0]'']\<rparr>
          \<lparr>objects = \<lambda>r. Map.empty, events = [], finalizers = []\<rparr>) of
        Inl e \<Rightarrow> None
      | Inr provider \<Rightarrow> Some (provider Map.empty ''K[0]'', provider Map.empty ''K.[0]''))
     = Some (Inl (MissingData ''K[0]''), Inr ''ok'')"
  using indexed_key_run
  by (simp add: layerGcp_eq [OF indexed_key_run] indexed_key_provider)

text \<open>
  Claim C6, amended: for every map \<open>M\<close> that the aggregation produced, the provider of
  the secrets-only layer answers a key of \<open>M\<close> with exactly the value \<open>M\<close> holds when
  the key is one that the provider's split of indexed keys leaves as it is (none of
  its parts between dots ends in an index \<open>[digits]\<close>) and no other key of \<open>M\<close> is
  turned into it; and it reports a key that \<open>M\<close> does not hold as not found, with no
  other source asked, when no key of \<open>M\<close> is turned into it.
\<close>

theorem secrets_only_lookup:
  assumes "secretMapForConfigProvider (getSecret newClient (projectId input)) SecretMap choices
      input (objects w) = Inr (secretMap, M)"
    and "dom (M secretMap) \<subseteq> set iteration"
  shows "\<exists>provider w'.
      layerGcp numberText iteration newClient SecretMap choices input w = (Inr provider, w')
    \<and> (\<forall>env k v. M secretMap k = Some v \<and> splitIndexInKey numberText k = k
          \<and> (\<forall>k' \<in> dom (M secretMap). splitIndexInKey numberText k' = k \<longrightarrow> k' = k)
          \<longrightarrow> provider env k = Inr v)
    \<and> (\<forall>env k. M secretMap k = None
          \<and> (\<forall>k' \<in> dom (M secretMap). splitIndexInKey numberText k' \<noteq> k)
          \<longrightarrow> provider env k = Inl (MissingData k))"
proof -
  let ?provider = "ConfigProvider_fromMap numberText iteration (M secretMap)"
  have found: "?provider env k = Inr v"
    if "M secretMap k = Some v \<and> splitIndexInKey numberText k = k
      \<and> (\<forall>k' \<in> dom (M secretMap). splitIndexInKey numberText k' = k \<longrightarrow> k' = k)"
    for env k v
  proof -
    have "k \<in> set iteration"
      using that assms(2) by auto
    with that have "splitIndexInKeys numberText (Map_entries iteration (M secretMap)) k = Some v"
      by (intro splitIndexInKeys_found) simp_all
    then show ?thesis
      by (simp add: ConfigProvider_fromMap_def)
  qed
  have missing: "?provider env k = Inl (MissingData k)"
    if "M secretMap k = None \<and> (\<forall>k' \<in> dom (M secretMap). splitIndexInKey numberText k' \<noteq> k)"
    for env k
  proof -
    have "splitIndexInKeys numberText (Map_entries iteration (M secretMap)) k = None"
      using that by (intro splitIndexInKeys_missing) simp
    then show ?thesis
      by (simp add: ConfigProvider_fromMap_def)
  qed
  show ?thesis
    using layerGcp_eq [OF assms(1), of numberText iteration] found missing by blast
qed

theorem secrets_only_lookup_witness:
  "\<exists>provider w'. layerGcp (\<lambda>digits. digits) [''PRESENT''] exampleClient 0 []
       \<lparr>projectId = ''p'', secrets = [Str ''PRESENT'']\<rparr>
       \<lparr>objects = \<lambda>r. Map.empty, events = [], finalizers = []\<rparr> = (Inr provider, w')
     \<and> provider [''ABSENT'' \<mapsto> ''env''] ''PRESENT'' = Inr ''ok''
     \<and> provider [''ABSENT'' \<mapsto> ''env''] ''ABSENT'' = Inl (MissingData ''ABSENT'')"
proof -
  let ?input = "\<lparr>projectId = ''p'', secrets = [Str ''PRESENT'']\<rparr>"
  let ?w = "\<lparr>objects = \<lambda>r. Map.empty, events = [], finalizers = []\<rparr>"
  let ?M = "(\<lambda>r :: nat. Map.empty)(0 := [''PRESENT'' \<mapsto> ''ok''])"
  let ?nt = "\<lambda>digits :: string. digits"
  have fetched: "fetchedSecrets (getSecret exampleClient (projectId ?input)) [] ?input
      = Inr [(''PRESENT'', ''ok'')]"
    by (simp add: fetchedSecrets_eq HashMap_fromIterable_def nameInConfig_def
        nameInSecretManager_def getSecret_def secretVersionName_def exampleClient_def)
  have run: "secretMapForConfigProvider (getSecret exampleClient (projectId ?input)) 0 []
      ?input (objects ?w) = Inr (0, ?M)"
    using secretMapForConfigProvider_eq [OF fetched, of 0 "objects ?w"] by simp
  have listed: "dom (?M 0) \<subseteq> set [''PRESENT'']" by simp
  have unsplit: "splitIndexInKey ?nt ''PRESENT'' = ''PRESENT''"
    by (rule splitIndexInKey_no_bracket) simp
  have held: "?M 0 ''PRESENT'' = Some ''ok'' \<and> splitIndexInKey ?nt ''PRESENT'' = ''PRESENT''
      \<and> (\<forall>k' \<in> dom (?M 0). splitIndexInKey ?nt k' = ''PRESENT'' \<longrightarrow> k' = ''PRESENT'')"
    using unsplit by simp
  have absent: "?M 0 ''ABSENT'' = None
      \<and> (\<forall>k' \<in> dom (?M 0). splitIndexInKey ?nt k' \<noteq> ''ABSENT'')"
    using unsplit by simp
  obtain provider w' where built: "layerGcp ?nt [''PRESENT''] exampleClient 0 [] ?input ?w
      = (Inr provider, w')"
    and found: "\<forall>env k v. ?M 0 k = Some v \<and> splitIndexInKey ?nt k = k
        \<and> (\<forall>k' \<in> dom (?M 0). splitIndexInKey ?nt k' = k \<longrightarrow> k' = k)
        \<longrightarrow> provider env k = Inr v"
    and missing: "\<forall>env k. ?M 0 k = None
        \<and> (\<forall>k' \<in> dom (?M 0). splitIndexInKey ?nt k' \<noteq> k)
        \<longrightarrow> provider env k = Inl (MissingData k)"
    using secrets_only_lookup [OF run listed, of ?nt] by blast
  have "provider [''ABSENT'' \<mapsto> ''env''] ''PRESENT'' = Inr ''ok''"
    using found held by blast
  moreover have "provider [''ABSENT'' \<mapsto> ''env''] ''ABSENT'' = Inl (MissingData ''ABSENT'')"
    using missing absent by blast
  ultimately show ?thesis
    using built by blast
qed

text \<open>
  Claim C4, as stated: a key that the secret map holds with the value \<open>A\<close> is answered
  with \<open>A\<close> through the fallback providers, never with the value of the fallback. It
  fails on a key that ends in an index: the secret map holds \<open>K[0]\<close> with the value
  \<open>ok\<close>, the provider of the secret map reports \<open>K[0]\<close> as missing, and the lookup is
  answered by the environment, or by the document.
\<close>

theorem indexed_key_answered_by_fallback_counterexample:
  "secretMapForConfigProvider (getSecret exampleClient ''p'') 0 []
      \<lparr>projectId = ''p'', secrets = [Obj ''PRESENT'' ''K[0]'']\<rparr> (\<lambda>r. Map.empty)
     = Inr (0, (\<lambda>r. Map.empty)(0 := [''K[0]'' \<mapsto> ''ok'']))
   \<and> (case fst (layerGcpWithEnvFallback (\<lambda>digits. digits) [''K[0]''] exampleClient 0 []
          \<lparr>projectId = ''p'', secrets = [Obj ''PRESENT'' ''K[0]'']\<rparr>
          \<lparr>objects = \<lambda>r. Map.empty, events = [], finalizers = []\<rparr>) of
        Inl e \<Rightarrow> None
      | Inr provider \<Rightarrow> Some (provider [''K[0]'' \<mapsto> ''from the environment''] ''K[0]''))
     = Some (Inr ''from the environment'')
   \<and> (case fst (layerGcpWithJsonFallback (\<lambda>digits. digits) [''K[0]'']
          (\<lambda>json env key. Inr json) exampleClient 0 [] ''from the document''
          \<lparr>projectId = ''p'', secrets = [Obj ''PRESENT'' ''K[0]'']\<rparr>
          \<lparr>objects = \<lambda>r. Map.empty, events = [], finalizers = []\<rparr>) of
        Inl e \<Rightarrow> None
      | Inr provider \<Rightarrow> Some (provider Map.empty ''K[0]''))
     = Some (Inr ''from the document'')"
  using indexed_key_run
  by (simp add: layerGcpWithEnvFallback_eq [OF indexed_key_run]
      layerGcpWithJsonFallback_eq [OF indexed_key_run] indexed_key_provider
      ConfigProvider_orElse_def ConfigProvider_fromEnv_def)

text \<open>
  Claim C4, amended: for every key \<open>k\<close> that the secret map holds with the value \<open>A\<close>,
  that the provider's split of indexed keys leaves as it is (none of its parts between
  dots ends in an index \<open>[digits]\<close>) and that no other key of the map is turned into,
  a lookup of \<open>k\<close> through the provider with the environment fallback and through the
  provider with the JSON fallback returns \<open>A\<close>, whatever the fallback holds for \<open>k\<close>:
  the provider of the secret map is asked first.
\<close>

theorem secret_value_shadows_fallback:
  assumes "secretMapForConfigProvider (getSecret newClient (projectId input)) SecretMap choices
      input (objects w) = Inr (secretMap, M)"
    and "dom (M secretMap) \<subseteq> set iteration"
    and "M secretMap k = Some A"
    and "splitIndexInKey numberText k = k"
    and "\<forall>k' \<in> dom (M secretMap). splitIndexInKey numberText k' = k \<longrightarrow> k' = k"
  shows "(\<exists>provider w'. layerGcpWithEnvFallback numberText iteration newClient SecretMap choices
            input w = (Inr provider, w')
          \<and> provider env k = Inr A)
    \<and> (\<exists>provider w'. layerGcpWithJsonFallback numberText iteration fromJson newClient SecretMap
            choices json input w = (Inr provider, w')
          \<and> provider env k = Inr A)"
proof -
  have "k \<in> set iteration"
    using assms(2,3) by auto
  then have "splitIndexInKeys numberText (Map_entries iteration (M secretMap)) k = Some A"
    using assms(3-5) by (intro splitIndexInKeys_found) simp_all
  then have "ConfigProvider_fromMap numberText iteration (M secretMap) env k = Inr A"
    by (simp add: ConfigProvider_fromMap_def)
  then show ?thesis
    using layerGcpWithEnvFallback_eq [OF assms(1), of numberText iteration]
      layerGcpWithJsonFallback_eq [OF assms(1), of numberText iteration fromJson json]
    by (simp add: ConfigProvider_orElse_def)
qed

theorem secret_value_shadows_fallback_witness:
  "(\<exists>provider w'. layerGcpWithEnvFallback (\<lambda>digits. digits) [''PRESENT''] exampleClient 0 []
        \<lparr>projectId = ''p'', secrets = [Str ''PRESENT'']\<rparr>
        \<lparr>objects = \<lambda>r. Map.empty, events = [], finalizers = []\<rparr> = (Inr provider, w')
      \<and> provider [''PRESENT'' \<mapsto> ''from the environment''] ''PRESENT'' = Inr ''ok'')
   \<and> (\<exists>provider w'. layerGcpWithJsonFallback (\<lambda>digits. digits) [''PRESENT'']
        (\<lambda>json env key. Inr json) exampleClient 0 []
        ''from the document'' \<lparr>projectId = ''p'', secrets = [Str ''PRESENT'']\<rparr>
        \<lparr>objects = \<lambda>r. Map.empty, events = [], finalizers = []\<rparr> = (Inr provider, w')
      \<and> provider [''PRESENT'' \<mapsto> ''from the environment''] ''PRESENT'' = Inr ''ok'')"
proof -
  let ?input = "\<lparr>projectId = ''p'', secrets = [Str ''PRESENT'']\<rparr>"
  let ?w = "\<lparr>objects = \<lambda>r. Map.empty, events = [], finalizers = []\<rparr>"
  let ?M = "(\<lambda>r :: nat. Map.empty)(0 := [''PRESENT'' \<mapsto> ''ok''])"
  let ?nt = "\<lambda>digits :: string. digits"
  have fetched: "fetchedSecrets (getSecret exampleClient (projectId ?input)) [] ?input
      = Inr [(''PRESENT'', ''ok'')]"
    by (simp add: fetchedSecrets_eq HashMap_fromIterable_def nameInConfig_def
        nameInSecretManager_def getSecret_def secretVersionName_def exampleClient_def)
  have run: "secretMapForConfigProvider (getSecret exampleClient (projectId ?input)) 0 []
      ?input (objects ?w) = Inr (0, ?M)"
    using secretMapForConfigProvider_eq [OF fetched, of 0 "objects ?w"] by simp
  have listed: "dom (?M 0) \<subseteq> set [''PRESENT'']" by simp
  have held: "?M 0 ''PRESENT'' = Some ''ok''" by simp
  have unsplit: "splitIndexInKey ?nt ''PRESENT'' = ''PRESENT''"
    by (rule splitIndexInKey_no_bracket) simp
  have alone: "\<forall>k' \<in> dom (?M 0). splitIndexInKey ?nt k' = ''PRESENT'' \<longrightarrow> k' = ''PRESENT''"
    by simp
  show ?thesis
    using secret_value_shadows_fallback [OF run listed held unsplit alone,
        of "[''PRESENT'' \<mapsto> ''from the environment'']" "\<lambda>json env key. Inr json"
          "''from the document''"]
    by simp
qed

text \<open>
  Claim C5, as stated: a key that the secret map does not hold is answered with the
  value of the environment variable when it is set, and reported as not found when it
  is not. It fails on a key that a key of the secret map is turned into: the secret map
  \<open>{K[0]: ok}\<close> does not hold \<open>K.[0]\<close>, and the lookup of \<open>K.[0]\<close> returns \<open>ok\<close>, with
  the variable set as without it.
\<close>

theorem absent_key_answered_by_secret_counterexample:
  "secretMapForConfigProvider (getSecret exampleClient ''p'') 0 []
      \<lparr>projectId = ''p'', secrets = [Obj ''PRESENT'' ''K[0]'']\<rparr> (\<lambda>r. Map.empty)
     = Inr (0, (\<lambda>r. Map.empty)(0 := [''K[0]'' \<mapsto> ''ok'']))
   \<and> ((\<lambda>r. Map.empty)(0 := [''K[0]'' \<mapsto> ''ok''])) (0::nat) ''K.[0]'' = None
   \<and> (case fst (layerGcpWithEnvFallback (\<lambda>digits. digits) [''K[0]''] exampleClient 0 []
          \<lparr>projectId = ''p'', secrets = [Obj ''PRESENT'' ''K[0]'']\<rparr>
          \<lparr>objects = \<lambda>r. Map.empty, events = [], finalizers = []\<rparr>) of
        Inl e \<Rightarrow> None
      | Inr provider \<Rightarrow>
          Some (provider [''K.[0]'' \<mapsto> ''from the environment''] ''K.[0]'',
                provider Map.empty ''K.[0]''))
     = Some (Inr ''ok'', Inr ''ok'')"
  using indexed_key_run
  by (simp add: layerGcpWithEnvFallback_eq [OF indexed_key_run] indexed_key_provider
      ConfigProvider_orElse_def ConfigProvider_fromEnv_def)

text \<open>
  Claim C5, amended: for every key \<open>k\<close> that the secret map does not hold and that no
  key of the secret map is turned into by the provider's split of indexed keys, a
  lookup of \<open>k\<close> through the provider with the environment fallback returns the value
  of the environment variable \<open>k\<close> when it is set, and reports not found when the
  environment does not hold \<open>k\<close> either.
\<close>

theorem env_fallback_for_absent_keys:
  assumes "secretMapForConfigProvider (getSecret newClient (projectId input)) SecretMap choices
      input (objects w) = Inr (secretMap, M)"
    and "M secretMap k = None"
    and "\<forall>k' \<in> dom (M secretMap). splitIndexInKey numberText k' \<noteq> k"
  shows "\<exists>provider w'. layerGcpWithEnvFallback numberText iteration newClient SecretMap choices
          input w = (Inr provider, w')
    \<and> (\<forall>v. env k = Some v \<longrightarrow> provider env k = Inr v)
    \<and> (env k = None \<longrightarrow> (\<exists>e. provider env k = Inl e \<and> isMissingDataOnly e))"
proof -
  have "splitIndexInKeys numberText (Map_entries iteration (M secretMap)) k = None"
    using assms(3) by (rule splitIndexInKeys_missing)
  then have "ConfigProvider_fromMap numberText iteration (M secretMap) env k
      = Inl (MissingData k)"
    by (simp add: ConfigProvider_fromMap_def)
  then show ?thesis
    using layerGcpWithEnvFallback_eq [OF assms(1), of numberText iteration]
    by (simp add: ConfigProvider_orElse_def ConfigProvider_fromEnv_def)
qed

theorem env_fallback_for_absent_keys_witness:
  "\<exists>provider w'. layerGcpWithEnvFallback (\<lambda>digits. digits) [''PRESENT''] exampleClient 0 []
       \<lparr>projectId = ''p'', secrets = [Str ''MISSING'', Str ''PRESENT'']\<rparr>
       \<lparr>objects = \<lambda>r. Map.empty, events = [], finalizers = []\<rparr> = (Inr provider, w')
     \<and> provider [''MISSING'' \<mapsto> ''from the environment''] ''MISSING''
         = Inr ''from the environment''
     \<and> (\<exists>e. provider Map.empty ''MISSING'' = Inl e \<and> isMissingDataOnly e)"
proof -
  let ?input = "\<lparr>projectId = ''p'', secrets = [Str ''MISSING'', Str ''PRESENT'']\<rparr>"
  let ?w = "\<lparr>objects = \<lambda>r. Map.empty, events = [], finalizers = []\<rparr>"
  let ?M = "(\<lambda>r :: nat. Map.empty)(0 := [''PRESENT'' \<mapsto> ''ok''])"
  let ?nt = "\<lambda>digits :: string. digits"
  have fetched: "fetchedSecrets (getSecret exampleClient (projectId ?input)) [] ?input
      = Inr [(''PRESENT'', ''ok'')]"
    by (simp add: fetchedSecrets_eq HashMap_fromIterable_def nameInConfig_def
        nameInSecretManager_def getSecret_def secretVersionName_def exampleClient_def)
  have run: "secretMapForConfigProvider (getSecret exampleClient (projectId ?input)) 0 []
      ?input (objects ?w) = Inr (0, ?M)"
    using secretMapForConfigProvider_eq [OF fetched, of 0 "objects ?w"] by simp
  have absent: "?M 0 ''MISSING'' = None" by simp
  have unsplit: "splitIndexInKey ?nt ''PRESENT'' = ''PRESENT''"
    by (rule splitIndexInKey_no_bracket) simp
  have untouched: "\<forall>k' \<in> dom (?M 0). splitIndexInKey ?nt k' \<noteq> ''MISSING''"
    using unsplit by simp
  obtain provider w' where built: "layerGcpWithEnvFallback ?nt [''PRESENT''] exampleClient 0 []
      ?input ?w = (Inr provider, w')"
    and set: "\<forall>v. [''MISSING'' \<mapsto> ''from the environment''] ''MISSING'' = Some v
      \<longrightarrow> provider [''MISSING'' \<mapsto> ''from the environment''] ''MISSING'' = Inr v"
    using env_fallback_for_absent_keys [OF run absent untouched,
        of "[''PRESENT'']" "[''MISSING'' \<mapsto> ''from the environment'']"]
    by blast
  obtain provider' w'' where built': "layerGcpWithEnvFallback ?nt [''PRESENT''] exampleClient 0 []
      ?input ?w = (Inr provider', w'')"
    and unset: "Map.empty ''MISSING'' = None
      \<longrightarrow> (\<exists>e. provider' Map.empty ''MISSING'' = Inl e \<and> isMissingDataOnly e)"
    using env_fallback_for_absent_keys [OF run absent untouched, of "[''PRESENT'']" Map.empty]
    by blast
  from built built' have "provider' = provider" by simp
  with built set unset show ?thesis by auto
qed

section \<open>An empty list of specs\<close>

text \<open>
  Claim C8, as stated: an empty list of specs is validated and rejected with a
  configuration error. It fails: the non-empty list is a requirement of the type of
  the input only, the code checks nothing, and on the empty list the aggregation
  returns the seed map and the layer is built.
\<close>

theorem empty_list_is_not_rejected_counterexample:
  "secretMapForConfigProvider (getSecret exampleClient ''p'') 0 []
       \<lparr>projectId = ''p'', secrets = []\<rparr> (\<lambda>r. Map.empty)
     = Inr (0, \<lambda>r. Map.empty)
   \<and> fst (layerGcp (\<lambda>digits. digits) [] exampleClient 0 []
        \<lparr>projectId = ''p'', secrets = []\<rparr>
        \<lparr>objects = \<lambda>r. Map.empty, events = [], finalizers = []\<rparr>)
     = Inr (ConfigProvider_fromMap (\<lambda>digits. digits) [] Map.empty)"
proof -
  have fetched: "fetchedSecrets (getSecret exampleClient ''p'') []
      \<lparr>projectId = ''p'', secrets = []\<rparr> = Inr []"
    by (simp add: fetchedSecrets_eq HashMap_fromIterable_def)
  have run: "secretMapForConfigProvider (getSecret exampleClient ''p'') 0 []
       \<lparr>projectId = ''p'', secrets = []\<rparr> (\<lambda>r. Map.empty) = Inr (0, \<lambda>r. Map.empty)"
    using secretMapForConfigProvider_eq [OF fetched, of 0 "\<lambda>r. Map.empty"]
    by (simp add: fun_eq_iff)
  have "secretMapForConfigProvider
       (getSecret exampleClient (projectId \<lparr>projectId = ''p'', secrets = []\<rparr>)) 0 []
       \<lparr>projectId = ''p'', secrets = []\<rparr>
       (objects \<lparr>objects = \<lambda>r. Map.empty, events = [], finalizers = []\<rparr>)
     = Inr (0, \<lambda>r. Map.empty)"
    using run by simp
  then show ?thesis
    using run by (simp add: layerGcp_eq)
qed

text \<open>
  Claim C8, amended: the non-empty list is required by the type of the input only and
  nothing validates it at run time. Given an empty list, the aggregation returns the
  seed map unchanged, and each of the three layers is built, with a provider over the
  seed map, rather than failing with a configuration error.
\<close>

theorem empty_list_gives_seed_map:
  assumes "secrets input = []"
  shows "secretMapForConfigProvider (getSecret newClient (projectId input)) SecretMap choices
        input (objects w) = Inr (SecretMap, objects w)
    \<and> fst (layerGcp numberText iteration newClient SecretMap choices input w)
        = Inr (ConfigProvider_fromMap numberText iteration (objects w SecretMap))
    \<and> fst (layerGcpWithEnvFallback numberText iteration newClient SecretMap choices input w)
        = Inr (ConfigProvider_orElse (\<lambda>u. ConfigProvider_fromEnv ())
            (ConfigProvider_fromMap numberText iteration (objects w SecretMap)))
    \<and> fst (layerGcpWithJsonFallback numberText iteration fromJson newClient SecretMap choices
          json input w)
        = Inr (ConfigProvider_orElse (\<lambda>u. fromJson json)
            (ConfigProvider_fromMap numberText iteration (objects w SecretMap)))"
proof -
  have fetched: "fetchedSecrets (getSecret newClient (projectId input)) choices input = Inr []"
    using assms by (simp add: fetchedSecrets_eq HashMap_fromIterable_def)
  have run: "secretMapForConfigProvider (getSecret newClient (projectId input)) SecretMap
      choices input (objects w) = Inr (SecretMap, objects w)"
    using secretMapForConfigProvider_eq [OF fetched, of SecretMap "objects w"]
    by simp
  show ?thesis
    using run
    by (simp add: layerGcp_eq [OF run] layerGcpWithEnvFallback_eq [OF run]
        layerGcpWithJsonFallback_eq [OF run])
qed

theorem empty_list_gives_seed_map_witness:
  "secrets \<lparr>projectId = ''p'', secrets = []\<rparr> = []
   \<and> secretMapForConfigProvider (getSecret exampleClient ''p'') 0 [3]
        \<lparr>projectId = ''p'', secrets = []\<rparr> ((\<lambda>r. Map.empty)(0 := [''K'' \<mapsto> ''old'']))
     = Inr (0, (\<lambda>r. Map.empty)(0 := [''K'' \<mapsto> ''old'']))"
proof -
  have e: "secrets \<lparr>projectId = ''p'', secrets = []\<rparr> = []" by simp
  show ?thesis
    using empty_list_gives_seed_map [where numberText = "\<lambda>digits. digits"
        and iteration = "[''K'']" and newClient = exampleClient and SecretMap = 0
        and choices = "[3]" and fromJson = "\<lambda>json env key. Inr json" and json = "''doc''"
        and w = "\<lparr>objects = (\<lambda>r. Map.empty)(0 := [''K'' \<mapsto> ''old'']), events = [],
          finalizers = []\<rparr>", OF e]
    by simp
qed

section \<open>The store client is closed once\<close>

text \<open>
  Claim C9: in every run of a program under one of the three layers, the store client
  is constructed when the layer is built and closed exactly once when the scope ends,
  whatever the fetches answered and whether the program ended normally or with an
  error; no finalizer of the scope is left.
\<close>

theorem client_closed_exactly_once:
  "events (snd (Effect_provide (layerGcp numberText iteration newClient SecretMap choices input) program w))
      = events w @ [ClientConstructed, ClientClosed]
   \<and> events (snd (Effect_provide
        (layerGcpWithEnvFallback numberText iteration newClient SecretMap choices input)
        program w))
      = events w @ [ClientConstructed, ClientClosed]
   \<and> events (snd (Effect_provide
        (layerGcpWithJsonFallback numberText iteration fromJson newClient SecretMap choices json
           input) program w))
      = events w @ [ClientConstructed, ClientClosed]
   \<and> finalizers (snd (Effect_provide (layerGcp numberText iteration newClient SecretMap choices input) program w))
      = finalizers w
   \<and> finalizers (snd (Effect_provide
        (layerGcpWithEnvFallback numberText iteration newClient SecretMap choices input)
        program w))
      = finalizers w
   \<and> finalizers (snd (Effect_provide
        (layerGcpWithJsonFallback numberText iteration fromJson newClient SecretMap choices json
           input) program w))
      = finalizers w"
proof -
  let ?w0 = "w\<lparr>finalizers := []\<rparr>"
  obtain h' where "secretMapForConfigProvider (getSecret newClient (projectId input)) SecretMap
      choices input (objects w) = Inr (SecretMap, h')"
    by (rule secretMapForConfigProvider_Inr)
  then have run: "secretMapForConfigProvider (getSecret newClient (projectId input)) SecretMap
      choices input (objects ?w0) = Inr (SecretMap, h')"
    by simp
  show ?thesis
    by (simp add: Effect_provide_def Scope_close_def layerGcp_eq [OF run]
        layerGcpWithEnvFallback_eq [OF run] layerGcpWithJsonFallback_eq [OF run])
qed

theorem client_closed_exactly_once_witness:
  "events (snd (Effect_provide
      (layerGcp (\<lambda>digits. digits) [] exampleClient 0 []
         \<lparr>projectId = ''p'', secrets = [Str ''MISSING'']\<rparr>)
      (\<lambda>provider. provider Map.empty ''MISSING'')
      \<lparr>objects = \<lambda>r. Map.empty, events = [], finalizers = []\<rparr>))
    = [ClientConstructed, ClientClosed]
   \<and> count_list (events (snd (Effect_provide
      (layerGcp (\<lambda>digits. digits) [] exampleClient 0 []
         \<lparr>projectId = ''p'', secrets = [Str ''MISSING'']\<rparr>)
      (\<lambda>provider. provider Map.empty ''MISSING'')
      \<lparr>objects = \<lambda>r. Map.empty, events = [], finalizers = []\<rparr>))) ClientClosed = 1"
  using client_closed_exactly_once [where numberText = "\<lambda>digits. digits"
      and iteration = "[]" and newClient = exampleClient and SecretMap = 0
      and choices = "[]" and input = "\<lparr>projectId = ''p'', secrets = [Str ''MISSING'']\<rparr>"
      and program = "\<lambda>provider. provider Map.empty ''MISSING''"
      and fromJson = "\<lambda>json env key. Inr json" and json = "''doc''"
      and w = "\<lparr>objects = \<lambda>r. Map.empty, events = [], finalizers = []\<rparr>"]
  by simp

end
